theory Spec2Isabelle
  imports Main
begin

section \<open>Go strings, UTF-8 and the library functions the validators call\<close>

text \<open>
  A Go \<^verbatim>\<open>string\<close> is a sequence of bytes: \<^verbatim>\<open>len(s)\<close> counts bytes and
  \<^verbatim>\<open>for _, c := range s\<close> walks the runes obtained by decoding UTF-8, an invalid
  byte giving the rune U+FFFD and a step of one byte. A string is modelled as a
  \<^typ>\<open>string\<close> (a list of 8-bit characters), a rune as a natural number.
\<close>

type_synonym rune = nat

definition bytes :: "string \<Rightarrow> nat list" where
  "bytes s = map of_char s"

definition RuneError :: rune where
  "RuneError = 0xFFFD"

definition RuneSelf :: nat where
  "RuneSelf = 0x80"

definition MaxLatin1 :: rune where
  "MaxLatin1 = 0xFF"

definition locb :: nat where
  "locb = 0x80"

definition hicb :: nat where
  "hicb = 0xBF"

text \<open>
  \<^verbatim>\<open>utf8.first\<close> with \<^verbatim>\<open>utf8.acceptRanges\<close>: for a leading byte that starts a
  sequence of several bytes, the length of the sequence and the range allowed to its
  second byte; nothing for the bytes 0x80-0xC1 and 0xF5-0xFF, which start no sequence.
\<close>

definition first :: "nat \<Rightarrow> (nat \<times> nat \<times> nat) option" where
  "first b =
     (if 0xC2 \<le> b \<and> b \<le> 0xDF then Some (2, locb, hicb)
      else if b = 0xE0 then Some (3, 0xA0, hicb)
      else if 0xE1 \<le> b \<and> b \<le> 0xEC then Some (3, locb, hicb)
      else if b = 0xED then Some (3, locb, 0x9F)
      else if 0xEE \<le> b \<and> b \<le> 0xEF then Some (3, locb, hicb)
      else if b = 0xF0 then Some (4, 0x90, hicb)
      else if 0xF1 \<le> b \<and> b \<le> 0xF3 then Some (4, locb, hicb)
      else if b = 0xF4 then Some (4, locb, 0x8F)
      else None)"

text \<open>
  \<^verbatim>\<open>utf8.DecodeRuneInString\<close> on the bytes of the string: the rune and its width.
  The masks \<^verbatim>\<open>s0&mask2\<close>, \<^verbatim>\<open>s0&mask3\<close>, \<^verbatim>\<open>s0&mask4\<close>, \<^verbatim>\<open>s&maskx\<close> are the
  remainders modulo 32, 16, 8 and 64, the shifts are multiplications, and the shifted
  fields do not overlap, so that \<^verbatim>\<open>|\<close> adds them.
\<close>

fun DecodeRune :: "nat list \<Rightarrow> rune \<times> nat" where
  "DecodeRune [] = (RuneError, 0)"
| "DecodeRune (s0 # rest) =
     (if s0 < RuneSelf then (s0, 1)
      else case first s0 of
        None \<Rightarrow> (RuneError, 1)
      | Some (sz, lo, hi) \<Rightarrow>
          if Suc (length rest) < sz then (RuneError, 1)
          else let s1 = rest ! 0 in
          if s1 < lo \<or> hi < s1 then (RuneError, 1)
          else if sz \<le> 2 then ((s0 mod 32) * 64 + s1 mod 64, 2)
          else let s2 = rest ! 1 in
          if s2 < locb \<or> hicb < s2 then (RuneError, 1)
          else if sz \<le> 3 then ((s0 mod 16) * 4096 + (s1 mod 64) * 64 + s2 mod 64, 3)
          else let s3 = rest ! 2 in
          if s3 < locb \<or> hicb < s3 then (RuneError, 1)
          else ((s0 mod 8) * 262144 + (s1 mod 64) * 4096 + (s2 mod 64) * 64 + s3 mod 64, 4))"

definition DecodeRuneInString :: "string \<Rightarrow> rune \<times> nat" where
  "DecodeRuneInString s = DecodeRune (bytes s)"

text \<open>\<^verbatim>\<open>utf8.RuneStart\<close>: the byte is not a continuation byte (\<^verbatim>\<open>b&0xC0 != 0x80\<close>).\<close>

definition RuneStart :: "nat \<Rightarrow> bool" where
  "RuneStart b = (\<not> (0x80 \<le> b \<and> b \<le> 0xBF))"

text \<open>
  \<^verbatim>\<open>utf8.DecodeLastRuneInString\<close>: the last rune of the string and its width. The
  backward search for the start of the rune looks at the bytes \<^verbatim>\<open>end-2\<close> down to
  \<^verbatim>\<open>lim = max(0, end-4)\<close> and, finding no start byte, stops at \<^verbatim>\<open>lim-1\<close>, turned
  into 0 when negative.
\<close>

definition lastStart :: "nat list \<Rightarrow> nat" where
  "lastStart bs =
     (let e = length bs in
      if 2 \<le> e \<and> RuneStart (bs ! (e - 2)) then e - 2
      else if 3 \<le> e \<and> RuneStart (bs ! (e - 3)) then e - 3
      else if 4 \<le> e \<and> RuneStart (bs ! (e - 4)) then e - 4
      else if 5 \<le> e then e - 5
      else 0)"

definition DecodeLastRune :: "nat list \<Rightarrow> rune \<times> nat" where
  "DecodeLastRune bs =
     (let e = length bs in
      if e = 0 then (RuneError, 0)
      else if bs ! (e - 1) < RuneSelf then (bs ! (e - 1), 1)
      else let start = lastStart bs; (r, size) = DecodeRune (drop start bs) in
        if start + size \<noteq> e then (RuneError, 1) else (r, size))"

definition DecodeLastRuneInString :: "string \<Rightarrow> rune \<times> nat" where
  "DecodeLastRuneInString s = DecodeLastRune (bytes s)"

text \<open>The runes a \<^verbatim>\<open>range\<close> loop over a string visits, in order.\<close>

fun runes :: "nat list \<Rightarrow> rune list" where
  "runes [] = []"
| "runes (b # bs) = (case DecodeRune (b # bs) of (r, n) \<Rightarrow> r # runes (drop (n - 1) bs))"

definition range_string :: "string \<Rightarrow> rune list" where
  "range_string s = runes (bytes s)"

text \<open>
  \<^verbatim>\<open>unicode.IsSpace\<close>: the Latin-1 spaces, and beyond Latin-1 the table
  \<^verbatim>\<open>unicode.White_Space\<close>.
\<close>

definition IsSpace :: "rune \<Rightarrow> bool" where
  "IsSpace r =
     (if r \<le> MaxLatin1
      then r = 0x09 \<or> r = 0x0A \<or> r = 0x0B \<or> r = 0x0C \<or> r = 0x0D \<or> r = 0x20 \<or> r = 0x85 \<or> r = 0xA0
      else r = 0x1680 \<or> (0x2000 \<le> r \<and> r \<le> 0x200A) \<or> r = 0x2028 \<or> r = 0x2029 \<or>
           r = 0x202F \<or> r = 0x205F \<or> r = 0x3000)"

text \<open>
  \<^verbatim>\<open>strings.TrimLeftFunc\<close> drops the runes at the front of the string for which
  \<^verbatim>\<open>f\<close> holds, \<^verbatim>\<open>strings.TrimRightFunc\<close> those at its end (read with
  \<^verbatim>\<open>DecodeLastRuneInString\<close>), and \<^verbatim>\<open>strings.TrimFunc\<close> does the left, then the
  right. \<^verbatim>\<open>strings.TrimSpace\<close> is \<^verbatim>\<open>TrimFunc\<close> with \<^verbatim>\<open>unicode.IsSpace\<close>; its
  loops over leading and trailing ASCII bytes are a fast path of the same function.
\<close>

fun TrimLeftFunc :: "string \<Rightarrow> (rune \<Rightarrow> bool) \<Rightarrow> string" where
  "TrimLeftFunc [] f = []"
| "TrimLeftFunc (c # cs) f =
     (case DecodeRuneInString (c # cs) of
        (r, n) \<Rightarrow> if f r then TrimLeftFunc (drop (n - 1) cs) f else c # cs)"

function TrimRightFunc :: "string \<Rightarrow> (rune \<Rightarrow> bool) \<Rightarrow> string" where
  "TrimRightFunc s f =
     (if s = [] then []
      else case DecodeLastRuneInString s of
        (r, n) \<Rightarrow> if f r then TrimRightFunc (take (length s - n) s) f else s)"
  by pat_completeness auto

termination
proof (relation "measure (\<lambda>(s, f). length s)", simp)
  fix s :: string and f :: "rune \<Rightarrow> bool" and r :: rune and n :: nat
  assume ne: "s \<noteq> []" and rn: "(r, n) = DecodeLastRuneInString s" and "f r"
  have d: "DecodeLastRune (bytes s) = (r, n)"
    using rn by (simp add: DecodeLastRuneInString_def)
  have ne': "bytes s \<noteq> []"
    using ne by (simp add: bytes_def)
  then have "lastStart (bytes s) < length (bytes s)"
    by (cases "bytes s") (auto simp: lastStart_def Let_def)
  then have "1 \<le> n"
    using d ne' by (auto simp: DecodeLastRune_def Let_def split: if_splits prod.splits)
  then show "((take (length s - n) s, f), (s, f)) \<in> measure (\<lambda>(s, f). length s)"
    using ne by (cases s) auto
qed

definition TrimFunc :: "string \<Rightarrow> (rune \<Rightarrow> bool) \<Rightarrow> string" where
  "TrimFunc s f = TrimRightFunc (TrimLeftFunc s f) f"

definition TrimSpace :: "string \<Rightarrow> string" where
  "TrimSpace s = TrimFunc s IsSpace"

text \<open>
  \<^verbatim>\<open>strings.Split(s, sep)\<close> for a separator of one byte, given as that byte: the
  pieces of \<^verbatim>\<open>s\<close> between the occurrences of the separator, one more than there
  are occurrences.
\<close>

fun Split :: "string \<Rightarrow> char \<Rightarrow> string list" where
  "Split [] sep = [[]]"
| "Split (c # cs) sep =
     (if c = sep then [] # Split cs sep
      else (c # hd (Split cs sep)) # tl (Split cs sep))"

definition HasPrefix :: "string \<Rightarrow> string \<Rightarrow> bool" where
  "HasPrefix s p = (length p \<le> length s \<and> take (length p) s = p)"

definition HasSuffix :: "string \<Rightarrow> string \<Rightarrow> bool" where
  "HasSuffix s p = (length p \<le> length s \<and> drop (length s - length p) s = p)"

fun Contains :: "string \<Rightarrow> string \<Rightarrow> bool" where
  "Contains [] substr = (substr = [])"
| "Contains (c # cs) substr = (HasPrefix (c # cs) substr \<or> Contains cs substr)"

text \<open>
  \<^verbatim>\<open>strings.LastIndex(s, substr)\<close> for a substring of one byte, given as that byte:
  the index of its last occurrence, -1 when there is none.
\<close>

fun LastIndex :: "string \<Rightarrow> char \<Rightarrow> int" where
  "LastIndex [] c = -1"
| "LastIndex (x # xs) c =
     (let i = LastIndex xs c in
      if 0 \<le> i then i + 1 else if x = c then 0 else -1)"

text \<open>\<^verbatim>\<open>strings.ContainsRune\<close>: the rune is one of the runes of the string.\<close>

definition ContainsRune :: "string \<Rightarrow> rune \<Rightarrow> bool" where
  "ContainsRune s r = (r \<in> set (range_string s))"

text \<open>
  \<^verbatim>\<open>unicode.IsUpper\<close>, \<^verbatim>\<open>unicode.IsLower\<close> and \<^verbatim>\<open>unicode.IsDigit\<close> answer from
  the Latin-1 property table for a rune up to U+00FF and from the range tables
  \<^verbatim>\<open>unicode.Upper\<close>, \<^verbatim>\<open>unicode.Lower\<close> and \<^verbatim>\<open>unicode.Digit\<close> beyond. The
  Latin-1 part is written out; the three tables are data of the Go library and are a
  parameter of the model.
\<close>

record RangeTables =
  Upper :: "rune \<Rightarrow> bool"
  Lower :: "rune \<Rightarrow> bool"
  Digit :: "rune \<Rightarrow> bool"

definition IsUpper :: "RangeTables \<Rightarrow> rune \<Rightarrow> bool" where
  "IsUpper T r =
     (if r \<le> MaxLatin1
      then (0x41 \<le> r \<and> r \<le> 0x5A) \<or> (0xC0 \<le> r \<and> r \<le> 0xD6) \<or> (0xD8 \<le> r \<and> r \<le> 0xDE)
      else Upper T r)"

definition IsLower :: "RangeTables \<Rightarrow> rune \<Rightarrow> bool" where
  "IsLower T r =
     (if r \<le> MaxLatin1
      then (0x61 \<le> r \<and> r \<le> 0x7A) \<or> r = 0xB5 \<or> (0xDF \<le> r \<and> r \<le> 0xF6) \<or> (0xF8 \<le> r \<and> r \<le> 0xFF)
      else Lower T r)"

definition IsDigit :: "RangeTables \<Rightarrow> rune \<Rightarrow> bool" where
  "IsDigit T r =
     (if r \<le> MaxLatin1 then 0x30 \<le> r \<and> r \<le> 0x39 else Digit T r)"

text \<open>
  An excerpt of the three tables, for the closed instances below: the Greek capital
  letters U+0391-U+03A1, the Greek small letters U+03B1-U+03C1 and the Arabic-Indic
  digits U+0660-U+0669.
\<close>

definition tablas_extracto :: RangeTables where
  "tablas_extracto =
     \<lparr>Upper = (\<lambda>r. 0x391 \<le> r \<and> r \<le> 0x3A1),
      Lower = (\<lambda>r. 0x3B1 \<le> r \<and> r \<le> 0x3C1),
      Digit = (\<lambda>r. 0x660 \<le> r \<and> r \<le> 0x669)\<rparr>"

section \<open>The validators\<close>

text \<open>A rune literal of the source, \<^verbatim>\<open>'a'\<close>, is the code of its character.\<close>

definition lit :: "char \<Rightarrow> rune" where
  "lit c = of_char c"

text \<open>The closure \<^verbatim>\<open>caracteresValidos\<close> of \<^verbatim>\<open>validarCorreo\<close> (lines 114-122).\<close>

definition caracterValido :: "rune \<Rightarrow> bool" where
  "caracterValido c =
     ((c \<ge> lit CHR ''a'' \<and> c \<le> lit CHR ''z'') \<or> (c \<ge> lit CHR ''A'' \<and> c \<le> lit CHR ''Z'') \<or>
      (c \<ge> lit CHR ''0'' \<and> c \<le> lit CHR ''9'') \<or> c = lit CHR ''.'' \<or> c = lit CHR ''-'' \<or>
      c = lit CHR ''_'' \<or> c = lit CHR ''@'')"

definition caracteresValidos :: "string \<Rightarrow> bool" where
  "caracteresValidos s = list_all caracterValido (range_string s)"

text \<open>\<^verbatim>\<open>validarCorreo\<close> (lines 60-125), check by check.\<close>

definition validarCorreo :: "string \<Rightarrow> bool" where
  "validarCorreo correo0 =
     (let correo = TrimSpace correo0 in
      if correo = [] then False
      else let partes = Split correo CHR ''@'' in
      if length partes \<noteq> 2 then False
      else let parteLocal = partes ! 0; dominio = partes ! 1 in
      if length parteLocal = 0 \<or> length parteLocal > 64 then False
      else if HasPrefix parteLocal ''.'' \<or> HasSuffix parteLocal ''.'' then False
      else if Contains parteLocal ''..'' then False
      else if length dominio = 0 \<or> length dominio > 255 then False
      else if \<not> Contains dominio ''.'' then False
      else if HasPrefix dominio ''.'' \<or> HasSuffix dominio ''.'' \<or>
              HasPrefix dominio ''-'' \<or> HasSuffix dominio ''-'' then False
      else let ultimoPunto = LastIndex dominio CHR ''.'';
               extension = drop (nat (ultimoPunto + 1)) dominio in
      if length extension < 2 then False
      else caracteresValidos correo)"

text \<open>\<^verbatim>\<open>validarTelefono\<close> (lines 128-138).\<close>

definition validarTelefono :: "string \<Rightarrow> bool" where
  "validarTelefono telefono =
     (if length telefono \<noteq> 10 then False
      else list_all (\<lambda>c. \<not> (c < lit CHR ''0'' \<or> c > lit CHR ''9'')) (range_string telefono))"

text \<open>
  \<^verbatim>\<open>validarPassword\<close> (lines 146-168). The four flags are the state of the loop; the
  \<^verbatim>\<open>switch\<close> takes the first case that holds.
\<close>

definition especiales :: string where
  "especiales = ''@$&''"

record banderas =
  tieneMayus :: bool
  tieneMinus :: bool
  tieneNumero :: bool
  tieneEspecial :: bool

definition clasificar :: "RangeTables \<Rightarrow> banderas \<Rightarrow> rune \<Rightarrow> banderas" where
  "clasificar T b c =
     (if IsUpper T c then b\<lparr>tieneMayus := True\<rparr>
      else if IsLower T c then b\<lparr>tieneMinus := True\<rparr>
      else if IsDigit T c then b\<lparr>tieneNumero := True\<rparr>
      else if ContainsRune especiales c then b\<lparr>tieneEspecial := True\<rparr>
      else b)"

definition validarPassword :: "RangeTables \<Rightarrow> string \<Rightarrow> bool" where
  "validarPassword T password =
     (if length password < 6 \<or> length password > 12 then False
      else let b = foldl (clasificar T)
                     \<lparr>tieneMayus = False, tieneMinus = False, tieneNumero = False,
                      tieneEspecial = False\<rparr>
                     (range_string password)
           in tieneMayus b \<and> tieneMinus b \<and> tieneNumero b \<and> tieneEspecial b)"

section \<open>The registry and the two handlers\<close>

record Usuario =
  Correo :: string
  Telefono :: string
  Password :: string

record RegistroRequest =
  Correo :: string
  Telefono :: string
  Password :: string

record LoginRequest =
  Correo :: string
  Password :: string

text \<open>
  What a handler sends back: the status code and the body. The error bodies
  \<^verbatim>\<open>ErrorResponse{Error: ...}\<close> are told apart by their message, one constructor
  for each message of the source, named after it (without its accents). The lines a
  handler prints on the console are not part of the model.
\<close>

datatype ErrorResponse =
  Cuerpo_invalido
| Falta_el_campo_correo
| Falta_el_campo_telefono
| Falta_el_campo_contrasena
| Correo_invalido
| Telefono_invalido
| Contrasena_invalida
| El_correo_ya_se_encuentra_registrado
| El_telefono_ya_se_encuentra_registrado
| Correo_o_contrasena_incorrectos
| Error_generando_token

datatype cuerpo_registro =
  ErrorRegistro ErrorResponse
| Usuario_registrado_exitosamente

definition StatusOK :: nat where
  "StatusOK = 200"

definition StatusCreated :: nat where
  "StatusCreated = 201"

definition StatusBadRequest :: nat where
  "StatusBadRequest = 400"

definition StatusUnauthorized :: nat where
  "StatusUnauthorized = 401"

definition StatusConflict :: nat where
  "StatusConflict = 409"

definition StatusInternalServerError :: nat where
  "StatusInternalServerError = 500"

text \<open>
  The loop of \<^verbatim>\<open>registroHandler\<close> over \<^verbatim>\<open>usuarios\<close> (lines 221-232): the response
  of the first iteration that returns, or nothing when the loop runs to its end.
\<close>

fun revisarDuplicados :: "Usuario list \<Rightarrow> RegistroRequest \<Rightarrow> (nat \<times> cuerpo_registro) option" where
  "revisarDuplicados [] req = None"
| "revisarDuplicados (u # us) req =
     (if Usuario.Correo u = RegistroRequest.Correo req
      then Some (StatusConflict, ErrorRegistro El_correo_ya_se_encuentra_registrado)
      else if Usuario.Telefono u = RegistroRequest.Telefono req
      then Some (StatusConflict, ErrorRegistro El_telefono_ya_se_encuentra_registrado)
      else revisarDuplicados us req)"

text \<open>
  \<^verbatim>\<open>registroHandler\<close> (lines 174-243). The state is the slice \<^verbatim>\<open>usuarios\<close>; the
  request is the decoded body, or nothing when \<^verbatim>\<open>Decode\<close> returns an error. The
  result is the slice after the call and the response.
\<close>

definition registroHandler ::
  "RangeTables \<Rightarrow> Usuario list \<Rightarrow> RegistroRequest option \<Rightarrow> Usuario list \<times> (nat \<times> cuerpo_registro)" where
  "registroHandler T usuarios body =
     (case body of
        None \<Rightarrow> (usuarios, (StatusBadRequest, ErrorRegistro Cuerpo_invalido))
      | Some req \<Rightarrow>
          if RegistroRequest.Correo req = []
          then (usuarios, (StatusBadRequest, ErrorRegistro Falta_el_campo_correo))
          else if RegistroRequest.Telefono req = []
          then (usuarios, (StatusBadRequest, ErrorRegistro Falta_el_campo_telefono))
          else if RegistroRequest.Password req = []
          then (usuarios, (StatusBadRequest, ErrorRegistro Falta_el_campo_contrasena))
          else if \<not> validarCorreo (RegistroRequest.Correo req)
          then (usuarios, (StatusBadRequest, ErrorRegistro Correo_invalido))
          else if \<not> validarTelefono (RegistroRequest.Telefono req)
          then (usuarios, (StatusBadRequest, ErrorRegistro Telefono_invalido))
          else if \<not> validarPassword T (RegistroRequest.Password req)
          then (usuarios, (StatusBadRequest, ErrorRegistro Contrasena_invalida))
          else case revisarDuplicados usuarios req of
            Some respuesta \<Rightarrow> (usuarios, respuesta)
          | None \<Rightarrow>
              (usuarios @
                 [\<lparr>Usuario.Correo = RegistroRequest.Correo req,
                   Usuario.Telefono = RegistroRequest.Telefono req,
                   Usuario.Password = RegistroRequest.Password req\<rparr>],
               (StatusCreated, Usuario_registrado_exitosamente)))"

subsection \<open>Login\<close>

text \<open>
  A \<^verbatim>\<open>time.Time\<close> is its number of nanoseconds since the Unix epoch, a
  \<^verbatim>\<open>time.Duration\<close> a number of nanoseconds.
\<close>

type_synonym Time = int

definition Hour :: int where
  "Hour = 3600 * 1000000000"

definition Add :: "Time \<Rightarrow> int \<Rightarrow> Time" where
  "Add t d = t + d"

definition Unix :: "Time \<Rightarrow> int" where
  "Unix t = t div 1000000000"

text \<open>
  The token of the JWT library before it is signed: its signing method and its claims
  (\<^verbatim>\<open>jwt.MapClaims\<close>, a map from claim names to values).
\<close>

datatype SigningMethod = SigningMethodHS256 | SigningMethodHS384 | SigningMethodHS512

datatype valor = VString string | VInt int

record Token =
  Method :: SigningMethod
  Claims :: "string \<rightharpoonup> valor"

definition NewWithClaims :: "SigningMethod \<Rightarrow> (string \<rightharpoonup> valor) \<Rightarrow> Token" where
  "NewWithClaims method claims = \<lparr>Method = method, Claims = claims\<rparr>"

definition jwtKey :: string where
  "jwtKey = ''mi_clave_secreta''"

datatype 't cuerpo_login =
  ErrorLogin ErrorResponse
| LoginResponse 't Time

text \<open>The search of \<^verbatim>\<open>loginHandler\<close> (lines 273-279): the first user that matches.\<close>

fun buscarUsuario :: "Usuario list \<Rightarrow> LoginRequest \<Rightarrow> Usuario option" where
  "buscarUsuario [] req = None"
| "buscarUsuario (u # us) req =
     (if Usuario.Correo u = LoginRequest.Correo req \<and> Usuario.Password u = LoginRequest.Password req
      then Some u
      else buscarUsuario us req)"

text \<open>
  \<^verbatim>\<open>loginHandler\<close> (lines 249-309). It reads \<^verbatim>\<open>usuarios\<close> and does not write it.
  \<^verbatim>\<open>SignedString\<close> is the method of the JWT library that signs a token with a key:
  it gives the token string or an error, and is a parameter, the token string being of
  any type \<^typ>\<open>'t\<close>. The handler calls \<^verbatim>\<open>time.Now()\<close> twice, for the claim
  \<^verbatim>\<open>exp\<close> (line 291) and for \<^verbatim>\<open>FechaInicio\<close> (line 305): \<open>Now 0\<close> and \<open>Now 1\<close>
  are what the first and the second call return.
\<close>

definition loginHandler ::
  "(Token \<Rightarrow> string \<Rightarrow> 't option) \<Rightarrow> (nat \<Rightarrow> Time) \<Rightarrow> Usuario list \<Rightarrow> LoginRequest option
     \<Rightarrow> nat \<times> 't cuerpo_login" where
  "loginHandler SignedString Now usuarios body =
     (case body of
        None \<Rightarrow> (StatusBadRequest, ErrorLogin Cuerpo_invalido)
      | Some req \<Rightarrow>
          if LoginRequest.Correo req = []
          then (StatusBadRequest, ErrorLogin Falta_el_campo_correo)
          else if LoginRequest.Password req = []
          then (StatusBadRequest, ErrorLogin Falta_el_campo_contrasena)
          else case buscarUsuario usuarios req of
            None \<Rightarrow> (StatusUnauthorized, ErrorLogin Correo_o_contrasena_incorrectos)
          | Some usuario \<Rightarrow>
              let claims = [''correo'' \<mapsto> VString (Usuario.Correo usuario),
                            ''exp'' \<mapsto> VInt (Unix (Add (Now 0) (Hour * 24)))];
                  token = NewWithClaims SigningMethodHS256 claims
              in case SignedString token jwtKey of
                None \<Rightarrow> (StatusInternalServerError, ErrorLogin Error_generando_token)
              | Some tokenString \<Rightarrow> (StatusOK, LoginResponse tokenString (Now 1)))"

text \<open>
  The server handling requests one after the other: a request to \<^verbatim>\<open>/registro\<close> or to
  \<^verbatim>\<open>/login\<close> (with the clock this call reads), the registry and the response after
  one request, and the registry after a list of them.
\<close>

datatype peticion =
  Registro "RegistroRequest option"
| Login "LoginRequest option" "nat \<Rightarrow> Time"

datatype 't respuesta =
  RespuestaRegistro "nat \<times> cuerpo_registro"
| RespuestaLogin "nat \<times> 't cuerpo_login"

fun atender ::
  "RangeTables \<Rightarrow> (Token \<Rightarrow> string \<Rightarrow> 't option) \<Rightarrow> Usuario list \<Rightarrow> peticion
     \<Rightarrow> Usuario list \<times> 't respuesta" where
  "atender T SignedString usuarios (Registro body) =
     (fst (registroHandler T usuarios body),
      RespuestaRegistro (snd (registroHandler T usuarios body)))"
| "atender T SignedString usuarios (Login body Now) =
     (usuarios, RespuestaLogin (loginHandler SignedString Now usuarios body))"

fun servir ::
  "RangeTables \<Rightarrow> (Token \<Rightarrow> string \<Rightarrow> 't option) \<Rightarrow> Usuario list \<Rightarrow> peticion list \<Rightarrow> Usuario list" where
  "servir T SignedString usuarios [] = usuarios"
| "servir T SignedString usuarios (p # ps) =
     servir T SignedString (fst (atender T SignedString usuarios p)) ps"

text \<open>The identity \<^verbatim>\<open>registroHandler\<close> appends for a request (lines 235-239).\<close>

definition nuevoUsuario :: "RegistroRequest \<Rightarrow> Usuario" where
  "nuevoUsuario req =
     \<lparr>Usuario.Correo = RegistroRequest.Correo req,
      Usuario.Telefono = RegistroRequest.Telefono req,
      Usuario.Password = RegistroRequest.Password req\<rparr>"

subsection \<open>Calls of the registration handler that overlap\<close>

text \<open>
  The HTTP server runs the handler of each request in a goroutine of its own, and the
  source has no lock around \<^verbatim>\<open>usuarios\<close>. A call of \<^verbatim>\<open>registroHandler\<close> is cut in
  two steps at the one point where it writes. The first step is the call up to the end
  of its loop (lines 175-232): the response when the call returns there, nothing when it
  goes on to line 235.
\<close>

definition revisar ::
  "RangeTables \<Rightarrow> Usuario list \<Rightarrow> RegistroRequest option \<Rightarrow> (nat \<times> cuerpo_registro) option" where
  "revisar T usuarios body =
     (case body of
        None \<Rightarrow> Some (StatusBadRequest, ErrorRegistro Cuerpo_invalido)
      | Some req \<Rightarrow>
          if RegistroRequest.Correo req = []
          then Some (StatusBadRequest, ErrorRegistro Falta_el_campo_correo)
          else if RegistroRequest.Telefono req = []
          then Some (StatusBadRequest, ErrorRegistro Falta_el_campo_telefono)
          else if RegistroRequest.Password req = []
          then Some (StatusBadRequest, ErrorRegistro Falta_el_campo_contrasena)
          else if \<not> validarCorreo (RegistroRequest.Correo req)
          then Some (StatusBadRequest, ErrorRegistro Correo_invalido)
          else if \<not> validarTelefono (RegistroRequest.Telefono req)
          then Some (StatusBadRequest, ErrorRegistro Telefono_invalido)
          else if \<not> validarPassword T (RegistroRequest.Password req)
          then Some (StatusBadRequest, ErrorRegistro Contrasena_invalida)
          else revisarDuplicados usuarios req)"

text \<open>
  A call has not started, has passed its checks and stands before line 235, or has
  answered. The server is the registry with the phase of each call. The step
  \<open>Revisar i\<close> runs the checks of call \<open>i\<close> on the registry as it is then; the step
  \<open>Insertar i\<close> runs its \<^verbatim>\<open>append\<close> (line 235) and its answer (lines 241-242). A
  schedule is a list of steps; a step of a call that is not at that point stops the run.
\<close>

datatype fase = Pendiente | PorInsertar | Terminada "nat \<times> cuerpo_registro"

record servidor =
  registro :: "Usuario list"
  fases :: "nat \<Rightarrow> fase"

datatype paso = Revisar nat | Insertar nat

fun dar_paso ::
  "RangeTables \<Rightarrow> RegistroRequest option list \<Rightarrow> servidor \<Rightarrow> paso \<Rightarrow> servidor option" where
  "dar_paso T bodies s (Revisar i) =
     (if i < length bodies \<and> fases s i = Pendiente
      then Some (s\<lparr>fases := (fases s)
                  (i := case revisar T (registro s) (bodies ! i) of
                          None \<Rightarrow> PorInsertar
                        | Some respuesta \<Rightarrow> Terminada respuesta)\<rparr>)
      else None)"
| "dar_paso T bodies s (Insertar i) =
     (if i < length bodies \<and> fases s i = PorInsertar
      then case bodies ! i of
             None \<Rightarrow> None
           | Some req \<Rightarrow>
               Some \<lparr>registro = registro s @ [nuevoUsuario req],
                     fases = (fases s)
                       (i := Terminada (StatusCreated, Usuario_registrado_exitosamente))\<rparr>
      else None)"

fun correr ::
  "RangeTables \<Rightarrow> RegistroRequest option list \<Rightarrow> servidor \<Rightarrow> paso list \<Rightarrow> servidor option" where
  "correr T bodies s [] = Some s"
| "correr T bodies s (p # ps) =
     (case dar_paso T bodies s p of None \<Rightarrow> None | Some s' \<Rightarrow> correr T bodies s' ps)"

text \<open>
  A call run alone, its two steps back to back, and calls run in series, one after the
  other.
\<close>

definition invocar ::
  "RangeTables \<Rightarrow> RegistroRequest option list \<Rightarrow> servidor \<Rightarrow> nat \<Rightarrow> servidor option" where
  "invocar T bodies s i =
     (case dar_paso T bodies s (Revisar i) of
        None \<Rightarrow> None
      | Some s' \<Rightarrow> if fases s' i = PorInsertar then dar_paso T bodies s' (Insertar i) else Some s')"

fun serie ::
  "RangeTables \<Rightarrow> RegistroRequest option list \<Rightarrow> servidor \<Rightarrow> nat list \<Rightarrow> servidor option" where
  "serie T bodies s [] = Some s"
| "serie T bodies s (i # is) =
     (case invocar T bodies s i of None \<Rightarrow> None | Some s' \<Rightarrow> serie T bodies s' is)"

definition inicial :: "Usuario list \<Rightarrow> servidor" where
  "inicial us = \<lparr>registro = us, fases = (\<lambda>i. Pendiente)\<rparr>"

section \<open>Notions of the statements\<close>

text \<open>
  A registration request is well formed when it passes the presence and the format
  checks of \<^verbatim>\<open>registroHandler\<close> (lines 184-218).
\<close>

definition bienFormada :: "RangeTables \<Rightarrow> RegistroRequest \<Rightarrow> bool" where
  "bienFormada T req =
     (RegistroRequest.Correo req \<noteq> [] \<and> RegistroRequest.Telefono req \<noteq> [] \<and>
      RegistroRequest.Password req \<noteq> [] \<and> validarCorreo (RegistroRequest.Correo req) \<and>
      validarTelefono (RegistroRequest.Telefono req) \<and>
      validarPassword T (RegistroRequest.Password req))"

text \<open>
  A stored identity coincides with a request when it has the email or the phone of the
  request: the condition under which an iteration of the loop of lines 221-232 returns.
\<close>

definition coincide :: "RegistroRequest \<Rightarrow> Usuario \<Rightarrow> bool" where
  "coincide req u =
     (Usuario.Correo u = RegistroRequest.Correo req \<or>
      Usuario.Telefono u = RegistroRequest.Telefono req)"

text \<open>No two stored identities share an email, and no two share a phone.\<close>

definition sinRepetidos :: "Usuario list \<Rightarrow> bool" where
  "sinRepetidos us = (distinct (map Usuario.Correo us) \<and> distinct (map Usuario.Telefono us))"

text \<open>A character of a string is an ASCII digit: its byte is one of \<^verbatim>\<open>'0'\<close> to \<^verbatim>\<open>'9'\<close>.\<close>

definition digitoASCII :: "char \<Rightarrow> bool" where
  "digitoASCII c = (lit CHR ''0'' \<le> lit c \<and> lit c \<le> lit CHR ''9'')"

text \<open>A character that is neither \<^verbatim>\<open>@\<close> nor a dot.\<close>

definition ajeno :: "char \<Rightarrow> bool" where
  "ajeno c = (c \<noteq> CHR ''@'' \<and> c \<noteq> CHR ''.'')"

text \<open>The string does not start with a rune for which \<open>f\<close> holds.\<close>

definition sinInicial :: "(rune \<Rightarrow> bool) \<Rightarrow> string \<Rightarrow> bool" where
  "sinInicial f s = (s = [] \<or> \<not> f (fst (DecodeRuneInString s)))"

text \<open>
  The domain part of an address, what follows its first \<^verbatim>\<open>@\<close>, and the substring of
  a domain after its last dot.
\<close>

definition dominio_de :: "string \<Rightarrow> string" where
  "dominio_de s = tl (dropWhile (\<lambda>c. c \<noteq> CHR ''@'') s)"

definition tras_ultimo_punto :: "string \<Rightarrow> string" where
  "tras_ultimo_punto d = rev (takeWhile (\<lambda>c. c \<noteq> CHR ''.'') (rev d))"

text \<open>
  The six ASCII characters of white space: tab, line feed, vertical tab, form feed,
  carriage return and space.
\<close>

definition espacioASCII :: "char \<Rightarrow> bool" where
  "espacioASCII c = (c \<in> set [CHR 0x09, CHR 0x0A, CHR 0x0B, CHR 0x0C, CHR 0x0D, CHR '' ''])"

text \<open>
  The phases after \<open>k\<close> calls in series of which the first was stored and the others met
  its email.
\<close>

definition fases_serie :: "nat \<Rightarrow> nat \<Rightarrow> fase" where
  "fases_serie k i =
     (if i = 0 then Terminada (StatusCreated, Usuario_registrado_exitosamente)
      else if i < k then Terminada (StatusConflict, ErrorRegistro El_correo_ya_se_encuentra_registrado)
      else Pendiente)"

section \<open>Data of the closed instances\<close>

text \<open>
  The requests of the end-to-end scenario, a second user, a request with the email of
  the second user and the phone of the first, and a request with the email of the first
  user and another phone.
\<close>

definition peticion_a :: RegistroRequest where
  "peticion_a =
     \<lparr>RegistroRequest.Correo = ''a@b.com'', RegistroRequest.Telefono = ''5551234567'',
      RegistroRequest.Password = ''Pass123@''\<rparr>"

definition peticion_c :: RegistroRequest where
  "peticion_c =
     \<lparr>RegistroRequest.Correo = ''c@d.com'', RegistroRequest.Telefono = ''5559999999'',
      RegistroRequest.Password = ''Pass123@''\<rparr>"

definition peticion_cruzada :: RegistroRequest where
  "peticion_cruzada =
     \<lparr>RegistroRequest.Correo = ''c@d.com'', RegistroRequest.Telefono = ''5551234567'',
      RegistroRequest.Password = ''Otra456$''\<rparr>"

definition peticion_mismo_correo :: RegistroRequest where
  "peticion_mismo_correo =
     \<lparr>RegistroRequest.Correo = ''a@b.com'', RegistroRequest.Telefono = ''5559999999'',
      RegistroRequest.Password = ''Otra456$''\<rparr>"

definition peticion_sin_password :: RegistroRequest where
  "peticion_sin_password =
     \<lparr>RegistroRequest.Correo = ''test@test.com'', RegistroRequest.Telefono = ''5559999999'',
      RegistroRequest.Password = []\<rparr>"

definition usuario_a :: Usuario where
  "usuario_a =
     \<lparr>Usuario.Correo = ''a@b.com'', Usuario.Telefono = ''5551234567'',
      Usuario.Password = ''Pass123@''\<rparr>"

definition usuario_c :: Usuario where
  "usuario_c =
     \<lparr>Usuario.Correo = ''c@d.com'', Usuario.Telefono = ''5559999999'',
      Usuario.Password = ''Pass123@''\<rparr>"

definition login_a :: LoginRequest where
  "login_a = \<lparr>LoginRequest.Correo = ''a@b.com'', LoginRequest.Password = ''Pass123@''\<rparr>"

definition login_a_mal :: LoginRequest where
  "login_a_mal = \<lparr>LoginRequest.Correo = ''a@b.com'', LoginRequest.Password = ''wrong1@''\<rparr>"

definition login_desconocido :: LoginRequest where
  "login_desconocido =
     \<lparr>LoginRequest.Correo = ''x@y.com'', LoginRequest.Password = ''Pass123@''\<rparr>"

text \<open>
  A signer that keeps what it signs: the token string is the token with the key. A
  clock whose two readings fall on the two sides of the start of a second.
\<close>

definition firma_simbolica :: "Token \<Rightarrow> string \<Rightarrow> (Token \<times> string) option" where
  "firma_simbolica token key = Some (token, key)"

definition reloj_ejemplo :: "nat \<Rightarrow> Time" where
  "reloj_ejemplo k = (if k = 0 then 1756077881999990000 else 1756077882000010000)"

text \<open>
  A password of six bytes and five characters: the Greek capital letter alpha (U+0391,
  the bytes 0xCE 0x91), then \<^verbatim>\<open>b1@x\<close>.
\<close>

definition password_alfa :: string where
  "password_alfa = [CHR 0xCE, CHR 0x91, CHR ''b'', CHR ''1'', CHR ''@'', CHR ''x'']"

text \<open>
  The address of the scenario between two spaces, and between a no-break space (U+00A0)
  and an en quad (U+2000), both white space for \<^verbatim>\<open>unicode.IsSpace\<close>.
\<close>

definition correo_espacios :: string where
  "correo_espacios = '' a@b.com ''"

definition correo_espacios_unicode :: string where
  "correo_espacios_unicode = [CHR 0xC2, CHR 0xA0] @ ''a@b.com'' @ [CHR 0xE2, CHR 0x80, CHR 0x80]"

definition peticion_espacios :: RegistroRequest where
  "peticion_espacios =
     \<lparr>RegistroRequest.Correo = correo_espacios, RegistroRequest.Telefono = ''5551234567'',
      RegistroRequest.Password = ''Pass123@''\<rparr>"

text \<open>Three requests of one email, the second with another phone and password.\<close>

definition peticiones_serie :: "RegistroRequest list" where
  "peticiones_serie = [peticion_a, peticion_mismo_correo, peticion_a]"

text \<open>
  Two passwords with the letter n with tilde (U+00F1, the bytes 0xC3 0xB1) after
  \<^verbatim>\<open>Aa1@\<close>: one of five characters and six bytes, one of nine characters and fourteen
  bytes.
\<close>

definition password_corta :: string where
  "password_corta = ''Aa1@'' @ [CHR 0xC3, CHR 0xB1]"

definition password_larga :: string where
  "password_larga =
     ''Aa1@'' @ [CHR 0xC3, CHR 0xB1, CHR 0xC3, CHR 0xB1, CHR 0xC3, CHR 0xB1, CHR 0xC3, CHR 0xB1,
       CHR 0xC3, CHR 0xB1]"

section \<open>The width of a decoded rune\<close>

lemma DecodeRune_size:
  assumes "DecodeRune bs = (r, n)" and "bs \<noteq> []"
  shows "1 \<le> n \<and> n \<le> length bs"
proof -
  obtain s0 rest where bs: "bs = s0 # rest"
    using assms(2) by (cases bs) auto
  show ?thesis
    using assms(1) unfolding bs
    by (auto simp: Let_def first_def Suc_le_eq split: if_splits option.splits)
qed

lemma lastStart_less: "bs \<noteq> [] \<Longrightarrow> lastStart bs < length bs"
  by (cases bs) (auto simp: lastStart_def Let_def)

lemma DecodeLastRune_size:
  assumes "DecodeLastRune bs = (r, n)" and "bs \<noteq> []"
  shows "1 \<le> n \<and> n \<le> length bs"
proof -
  have lt: "lastStart bs < length bs"
    using assms(2) by (rule lastStart_less)
  show ?thesis
    using assms lt
    by (auto simp: DecodeLastRune_def Let_def split: if_splits prod.splits)
qed

section \<open>The registration flow\<close>

lemma bienFormada_a: "bienFormada tablas_extracto peticion_a"
  by code_simp

lemma bienFormada_c: "bienFormada tablas_extracto peticion_c"
  by code_simp

lemma bienFormada_cruzada: "bienFormada tablas_extracto peticion_cruzada"
  by code_simp

lemma bienFormada_mismo_correo: "bienFormada tablas_extracto peticion_mismo_correo"
  by code_simp

lemma revisarDuplicados_None:
  "revisarDuplicados us req = None \<longleftrightarrow>
     list_all (\<lambda>u. Usuario.Correo u \<noteq> RegistroRequest.Correo req \<and>
                    Usuario.Telefono u \<noteq> RegistroRequest.Telefono req) us"
  by (induction us) auto

lemma revisarDuplicados_Some:
  "revisarDuplicados us req = Some r \<Longrightarrow>
     r = (StatusConflict, ErrorRegistro El_correo_ya_se_encuentra_registrado) \<or>
     r = (StatusConflict, ErrorRegistro El_telefono_ya_se_encuentra_registrado)"
  by (induction us) (auto split: if_splits)

lemma revisarDuplicados_find:
  "revisarDuplicados us req =
     (case find (coincide req) us of
        None \<Rightarrow> None
      | Some u \<Rightarrow>
          Some (StatusConflict,
            ErrorRegistro (if Usuario.Correo u = RegistroRequest.Correo req
                           then El_correo_ya_se_encuentra_registrado
                           else El_telefono_ya_se_encuentra_registrado)))"
  by (induction us) (auto simp: coincide_def)

lemma registroHandler_cases:
  "registroHandler T us body = (us', r) \<Longrightarrow>
     (r = (StatusCreated, Usuario_registrado_exitosamente) \<and>
        (\<exists>req. body = Some req \<and> bienFormada T req \<and> revisarDuplicados us req = None \<and>
               us' = us @ [nuevoUsuario req])) \<or>
     (fst r \<noteq> StatusCreated \<and> us' = us)"
  by (auto simp: registroHandler_def bienFormada_def nuevoUsuario_def StatusCreated_def
        StatusBadRequest_def StatusConflict_def
      split: option.splits if_splits dest: revisarDuplicados_Some)

lemma registroHandler_bienFormada:
  "bienFormada T req \<Longrightarrow>
     registroHandler T us (Some req) =
       (case revisarDuplicados us req of
          Some respuesta \<Rightarrow> (us, respuesta)
        | None \<Rightarrow> (us @ [nuevoUsuario req], (StatusCreated, Usuario_registrado_exitosamente)))"
  by (simp add: registroHandler_def bienFormada_def nuevoUsuario_def split: option.splits)

lemma registroHandler_sinRepetidos:
  assumes "sinRepetidos us"
  shows "sinRepetidos (fst (registroHandler T us body))"
proof -
  obtain us' r where eq: "registroHandler T us body = (us', r)"
    by (cases "registroHandler T us body")
  from registroHandler_cases [OF eq] show ?thesis
  proof
    assume "r = (StatusCreated, Usuario_registrado_exitosamente) \<and>
        (\<exists>req. body = Some req \<and> bienFormada T req \<and> revisarDuplicados us req = None \<and>
               us' = us @ [nuevoUsuario req])"
    then obtain req where n: "revisarDuplicados us req = None"
      and us': "us' = us @ [nuevoUsuario req]"
      by blast
    from n have "list_all (\<lambda>u. Usuario.Correo u \<noteq> RegistroRequest.Correo req \<and>
                    Usuario.Telefono u \<noteq> RegistroRequest.Telefono req) us"
      by (simp add: revisarDuplicados_None)
    then have "RegistroRequest.Correo req \<notin> set (map Usuario.Correo us)"
      and "RegistroRequest.Telefono req \<notin> set (map Usuario.Telefono us)"
      by (auto simp: list_all_iff)
    then show ?thesis
      using assms by (simp add: eq us' sinRepetidos_def nuevoUsuario_def)
  next
    assume "fst r \<noteq> StatusCreated \<and> us' = us"
    then show ?thesis using assms by (simp add: eq)
  qed
qed

lemma atender_sinRepetidos:
  "sinRepetidos us \<Longrightarrow> sinRepetidos (fst (atender T S us p))"
  by (cases p) (simp_all add: registroHandler_sinRepetidos)

lemma servir_sinRepetidos:
  "sinRepetidos us \<Longrightarrow> sinRepetidos (servir T S us ps)"
  by (induction ps arbitrary: us) (auto dest: atender_sinRepetidos)

text \<open>
  Claim C1, as the code has it. The loop of lines 221-232 tests the email and then the
  phone of one stored identity before it moves to the next. For a well-formed request
  the outcome is therefore decided by the first stored identity, in insertion order,
  that has the email or the phone of the request: the registration fails with "El
  correo ya se encuentra registrado" when that identity has the email of the request,
  and with "El telefono ya se encuentra registrado" otherwise, also when an identity
  stored after it has the email of the request; with no such identity the request is
  stored.
\<close>

theorem registro_primera_coincidencia:
  assumes "bienFormada T req"
  shows "registroHandler T usuarios (Some req) =
     (case find (coincide req) usuarios of
        None \<Rightarrow> (usuarios @ [nuevoUsuario req], (StatusCreated, Usuario_registrado_exitosamente))
      | Some u \<Rightarrow>
          (usuarios, (StatusConflict,
            ErrorRegistro (if Usuario.Correo u = RegistroRequest.Correo req
                           then El_correo_ya_se_encuentra_registrado
                           else El_telefono_ya_se_encuentra_registrado))))"
  using assms
  by (simp add: registroHandler_bienFormada revisarDuplicados_find split: option.splits)

text \<open>
  The theorem at the registry of two users: the request with the email of the second and
  the phone of the first fails on the phone, the request with the email of the first
  and the phone of the second fails on the email.
\<close>

theorem registro_primera_coincidencia_witness:
  "bienFormada tablas_extracto peticion_cruzada \<and>
   registroHandler tablas_extracto [usuario_a, usuario_c] (Some peticion_cruzada) =
     ([usuario_a, usuario_c],
      (StatusConflict, ErrorRegistro El_telefono_ya_se_encuentra_registrado)) \<and>
   bienFormada tablas_extracto peticion_mismo_correo \<and>
   registroHandler tablas_extracto [usuario_a, usuario_c] (Some peticion_mismo_correo) =
     ([usuario_a, usuario_c],
      (StatusConflict, ErrorRegistro El_correo_ya_se_encuentra_registrado))"
  using registro_primera_coincidencia [OF bienFormada_cruzada, of "[usuario_a, usuario_c]"]
    registro_primera_coincidencia [OF bienFormada_mismo_correo, of "[usuario_a, usuario_c]"]
    bienFormada_cruzada bienFormada_mismo_correo
  by (simp add: coincide_def peticion_cruzada_def peticion_mismo_correo_def usuario_a_def
        usuario_c_def)

text \<open>
  Claim C1 as stated fails: after the two users of the scenario have registered, a
  well-formed request with the email of the second user, which is in the registry, and
  the phone of the first is answered "El telefono ya se encuentra registrado".
\<close>

theorem registro_correo_duplicado_counterexample:
  "registroHandler tablas_extracto [] (Some peticion_a) =
     ([usuario_a], (StatusCreated, Usuario_registrado_exitosamente)) \<and>
   registroHandler tablas_extracto [usuario_a] (Some peticion_c) =
     ([usuario_a, usuario_c], (StatusCreated, Usuario_registrado_exitosamente)) \<and>
   bienFormada tablas_extracto peticion_cruzada \<and>
   Usuario.Correo usuario_c = RegistroRequest.Correo peticion_cruzada \<and>
   registroHandler tablas_extracto [usuario_a, usuario_c] (Some peticion_cruzada) =
     ([usuario_a, usuario_c],
      (StatusConflict, ErrorRegistro El_telefono_ya_se_encuentra_registrado))"
  by (simp add: registroHandler_bienFormada bienFormada_a bienFormada_c bienFormada_cruzada)
     (simp add: peticion_a_def peticion_c_def peticion_cruzada_def usuario_a_def usuario_c_def
        nuevoUsuario_def)

lemma registroHandler_None:
  "registroHandler T us None = (us, (StatusBadRequest, ErrorRegistro Cuerpo_invalido))"
  by (simp add: registroHandler_def)

lemma registro_ejemplo_primero:
  "registroHandler tablas_extracto [] (Some peticion_a) =
     ([usuario_a], (StatusCreated, Usuario_registrado_exitosamente))"
  by (simp add: registroHandler_bienFormada bienFormada_a)
     (simp add: peticion_a_def usuario_a_def nuevoUsuario_def)

lemma registro_ejemplo_falta:
  "registroHandler tablas_extracto [usuario_a] (Some peticion_sin_password) =
     ([usuario_a], (StatusBadRequest, ErrorRegistro Falta_el_campo_contrasena))"
  by (simp add: registroHandler_def peticion_sin_password_def)

lemma registro_ejemplo_duplicado:
  "registroHandler tablas_extracto [usuario_a] (Some peticion_mismo_correo) =
     ([usuario_a], (StatusConflict, ErrorRegistro El_correo_ya_se_encuentra_registrado))"
  by (simp add: registroHandler_bienFormada bienFormada_mismo_correo)
     (simp add: peticion_mismo_correo_def usuario_a_def)

lemma registro_ejemplo_telefono:
  "registroHandler tablas_extracto [usuario_a] (Some peticion_cruzada) =
     ([usuario_a], (StatusConflict, ErrorRegistro El_telefono_ya_se_encuentra_registrado))"
  by (simp add: registroHandler_bienFormada bienFormada_cruzada)
     (simp add: peticion_cruzada_def usuario_a_def)

lemma registro_ejemplo_exito:
  "registroHandler tablas_extracto [usuario_a] (Some peticion_c) =
     ([usuario_a, usuario_c], (StatusCreated, Usuario_registrado_exitosamente))"
  by (simp add: registroHandler_bienFormada bienFormada_c)
     (simp add: peticion_c_def usuario_a_def usuario_c_def nuevoUsuario_def)

lemma servir_ejemplo:
  "servir tablas_extracto firma_simbolica []
     [Registro (Some peticion_a), Registro (Some peticion_mismo_correo),
      Login (Some login_a) reloj_ejemplo, Registro None, Registro (Some peticion_cruzada),
      Registro (Some peticion_c)] = [usuario_a, usuario_c]"
  by (simp add: registro_ejemplo_primero registro_ejemplo_duplicado registroHandler_None
        registro_ejemplo_telefono registro_ejemplo_exito)

text \<open>
  Claim C2. Whatever requests to \<^verbatim>\<open>/registro\<close> and \<^verbatim>\<open>/login\<close> the server handles
  one after the other from the empty registry, no two stored identities share an email
  and no two share a phone.
\<close>

theorem registro_sin_repetidos:
  "distinct (map Usuario.Correo (servir T SignedString [] ps)) \<and>
   distinct (map Usuario.Telefono (servir T SignedString [] ps))"
  using servir_sinRepetidos [of "[]" T SignedString ps] by (simp add: sinRepetidos_def)

text \<open>
  The theorem at six requests: two of them are stored, the others (a known email, a
  login, a body that does not decode, a known phone) leave the registry as it is.
\<close>

theorem registro_sin_repetidos_witness:
  "servir tablas_extracto firma_simbolica []
     [Registro (Some peticion_a), Registro (Some peticion_mismo_correo),
      Login (Some login_a) reloj_ejemplo, Registro None, Registro (Some peticion_cruzada),
      Registro (Some peticion_c)] = [usuario_a, usuario_c] \<and>
   distinct (map Usuario.Correo [usuario_a, usuario_c]) \<and>
   distinct (map Usuario.Telefono [usuario_a, usuario_c])"
  using registro_sin_repetidos [of tablas_extracto firma_simbolica
     "[Registro (Some peticion_a), Registro (Some peticion_mismo_correo),
      Login (Some login_a) reloj_ejemplo, Registro None, Registro (Some peticion_cruzada),
      Registro (Some peticion_c)]"]
  by (simp only: servir_ejemplo)

text \<open>
  Claim C4. A call of \<^verbatim>\<open>registroHandler\<close> that does not answer "Usuario registrado
  exitosamente" with status 201, whatever the reason, leaves the registry as it was; a
  call that does has appended to the registry exactly one identity, built from the three
  fields of a request that passed every check and coincided with no stored identity.
\<close>

theorem registro_muta_solo_en_exito:
  "(snd (registroHandler T usuarios body) \<noteq> (StatusCreated, Usuario_registrado_exitosamente) \<longrightarrow>
      fst (registroHandler T usuarios body) = usuarios) \<and>
   (snd (registroHandler T usuarios body) = (StatusCreated, Usuario_registrado_exitosamente) \<longrightarrow>
      (\<exists>req. body = Some req \<and> bienFormada T req \<and> \<not> list_ex (coincide req) usuarios \<and>
             fst (registroHandler T usuarios body) = usuarios @ [nuevoUsuario req]))"
proof -
  obtain us' r where eq: "registroHandler T usuarios body = (us', r)"
    by (cases "registroHandler T usuarios body")
  from registroHandler_cases [OF eq] show ?thesis
    by (auto simp: eq revisarDuplicados_None coincide_def list_all_iff list_ex_iff)
qed

text \<open>
  The theorem at a registry of one user: a request without password and a request with
  the email of the user leave the registry as it is, a new request is appended.
\<close>

theorem registro_muta_solo_en_exito_witness:
  "registroHandler tablas_extracto [usuario_a] (Some peticion_sin_password) =
     ([usuario_a], (StatusBadRequest, ErrorRegistro Falta_el_campo_contrasena)) \<and>
   registroHandler tablas_extracto [usuario_a] (Some peticion_mismo_correo) =
     ([usuario_a], (StatusConflict, ErrorRegistro El_correo_ya_se_encuentra_registrado)) \<and>
   registroHandler tablas_extracto [usuario_a] (Some peticion_c) =
     ([usuario_a] @ [nuevoUsuario peticion_c], (StatusCreated, Usuario_registrado_exitosamente))"
proof -
  have f: "snd (registroHandler tablas_extracto [usuario_a] (Some peticion_sin_password)) =
      (StatusBadRequest, ErrorRegistro Falta_el_campo_contrasena)"
    by (simp add: registro_ejemplo_falta)
  have d: "snd (registroHandler tablas_extracto [usuario_a] (Some peticion_mismo_correo)) =
      (StatusConflict, ErrorRegistro El_correo_ya_se_encuentra_registrado)"
    by (simp add: registro_ejemplo_duplicado)
  have e: "snd (registroHandler tablas_extracto [usuario_a] (Some peticion_c)) =
      (StatusCreated, Usuario_registrado_exitosamente)"
    by (simp add: registro_ejemplo_exito)
  have "fst (registroHandler tablas_extracto [usuario_a] (Some peticion_sin_password)) =
      [usuario_a]"
    using registro_muta_solo_en_exito [of tablas_extracto "[usuario_a]" "Some peticion_sin_password"] f
    by simp
  moreover have
    "fst (registroHandler tablas_extracto [usuario_a] (Some peticion_mismo_correo)) = [usuario_a]"
    using registro_muta_solo_en_exito [of tablas_extracto "[usuario_a]" "Some peticion_mismo_correo"] d
    by simp
  moreover have "fst (registroHandler tablas_extracto [usuario_a] (Some peticion_c)) =
      [usuario_a] @ [nuevoUsuario peticion_c]"
    using registro_muta_solo_en_exito [of tablas_extracto "[usuario_a]" "Some peticion_c"] e
    by auto
  ultimately show ?thesis
    using f d e by (simp add: prod_eq_iff)
qed

section \<open>Calls in series and calls that overlap\<close>

lemma registroHandler_revisar:
  "registroHandler T us body =
     (case revisar T us body of
        Some respuesta \<Rightarrow> (us, respuesta)
      | None \<Rightarrow> (case body of
                  Some req \<Rightarrow> (us @ [nuevoUsuario req], (StatusCreated, Usuario_registrado_exitosamente))
                | None \<Rightarrow> (us, (StatusBadRequest, ErrorRegistro Cuerpo_invalido))))"
  by (simp add: registroHandler_def revisar_def nuevoUsuario_def split: option.splits)

lemma invocar_registroHandler:
  assumes "i < length bodies" and "fases s i = Pendiente"
  shows "invocar T bodies s i =
     Some \<lparr>registro = fst (registroHandler T (registro s) (bodies ! i)),
           fases = (fases s)(i := Terminada (snd (registroHandler T (registro s) (bodies ! i))))\<rparr>"
proof (cases "revisar T (registro s) (bodies ! i)")
  case None
  then obtain req where b: "bodies ! i = Some req"
    by (cases "bodies ! i") (simp_all add: revisar_def)
  show ?thesis
    using assms None b by (simp add: invocar_def registroHandler_revisar)
next
  case (Some r)
  then show ?thesis
    using assms by (simp add: invocar_def registroHandler_revisar)
qed

lemma revisar_bienFormada:
  "bienFormada T req \<Longrightarrow> revisar T us (Some req) = revisarDuplicados us req"
  by (simp add: revisar_def bienFormada_def)

lemma registroHandler_primero:
  assumes "bienFormada T req" and "\<not> list_ex (coincide req) us"
  shows "registroHandler T us (Some req) =
           (us @ [nuevoUsuario req], (StatusCreated, Usuario_registrado_exitosamente))"
proof -
  have "find (coincide req) us = None"
    using assms(2) by (simp add: find_None_iff list_ex_iff)
  then show ?thesis
    using assms(1) by (simp add: registroHandler_bienFormada revisarDuplicados_find)
qed

lemma find_None_append: "find P xs = None \<Longrightarrow> find P (xs @ ys) = find P ys"
  by (induction xs) (simp_all split: if_splits)

lemma registroHandler_siguiente:
  assumes "bienFormada T req" and "\<not> list_ex (coincide req) us"
    and "RegistroRequest.Correo req = RegistroRequest.Correo req0"
  shows "registroHandler T (us @ [nuevoUsuario req0]) (Some req) =
           (us @ [nuevoUsuario req0],
            (StatusConflict, ErrorRegistro El_correo_ya_se_encuentra_registrado))"
proof -
  have "find (coincide req) us = None"
    using assms(2) by (simp add: find_None_iff list_ex_iff)
  then have "find (coincide req) (us @ [nuevoUsuario req0]) = Some (nuevoUsuario req0)"
    using assms(3) by (simp add: find_None_append coincide_def nuevoUsuario_def)
  then show ?thesis
    using assms(1,3)
    by (simp add: registroHandler_bienFormada revisarDuplicados_find nuevoUsuario_def)
qed

lemma serie_resto:
  assumes "list_all (bienFormada T) reqs"
    and "list_all (\<lambda>r. RegistroRequest.Correo r = RegistroRequest.Correo req0) reqs"
    and "list_all (\<lambda>r. \<not> list_ex (coincide r) us) reqs"
    and "k \<le> length reqs"
  shows "1 \<le> k \<longrightarrow>
     serie T (map Some reqs) \<lparr>registro = us @ [nuevoUsuario req0], fases = fases_serie k\<rparr>
       [k..<length reqs] =
     Some \<lparr>registro = us @ [nuevoUsuario req0], fases = fases_serie (length reqs)\<rparr>"
  using assms(4)
proof (induction k rule: inc_induct)
  case base
  show ?case by simp
next
  case (step n)
  show ?case
  proof
    assume n: "1 \<le> n"
    let ?s = "\<lparr>registro = us @ [nuevoUsuario req0], fases = fases_serie n\<rparr>"
    have r: "bienFormada T (reqs ! n)" "\<not> list_ex (coincide (reqs ! n)) us"
      "RegistroRequest.Correo (reqs ! n) = RegistroRequest.Correo req0"
      using assms(1-3) step.hyps(2) by (simp_all add: list_all_length)
    have p: "fases ?s n = Pendiente"
      using n by (simp add: fases_serie_def)
    have l: "n < length (map Some reqs)"
      using step.hyps(2) by simp
    have u: "(fases_serie n)
        (n := Terminada (StatusConflict, ErrorRegistro El_correo_ya_se_encuentra_registrado)) =
        fases_serie (Suc n)"
      using n by (auto simp: fases_serie_def fun_eq_iff)
    have "invocar T (map Some reqs) ?s n =
        Some \<lparr>registro = us @ [nuevoUsuario req0], fases = fases_serie (Suc n)\<rparr>"
      using invocar_registroHandler [OF l p, of T] step.hyps(2)
      by (simp add: registroHandler_siguiente [OF r] u)
    moreover have "[n..<length reqs] = n # [Suc n..<length reqs]"
      using step.hyps(2) by (simp add: upt_conv_Cons)
    ultimately show "serie T (map Some reqs) ?s [n..<length reqs] =
        Some \<lparr>registro = us @ [nuevoUsuario req0], fases = fases_serie (length reqs)\<rparr>"
      using step.IH by simp
  qed
qed

text \<open>
  Claim C9, as the code has it. When N calls of \<^verbatim>\<open>registroHandler\<close> with well-formed
  requests of one email run in series, each call checking and inserting with no step of
  another call in between, from a registry in which no identity has the email or the
  phone of one of the requests, the first call answers 201, each of the other N-1
  answers "El correo ya se encuentra registrado", and the registry ends with exactly one
  identity of that email. The source has no lock that would make overlapping calls run
  in series.
\<close>

theorem registro_en_serie:
  assumes "reqs \<noteq> []" and "list_all (bienFormada T) reqs"
    and "list_all (\<lambda>r. RegistroRequest.Correo r = RegistroRequest.Correo (hd reqs)) reqs"
    and "list_all (\<lambda>r. \<not> list_ex (coincide r) us) reqs"
  shows "serie T (map Some reqs) (inicial us) [0..<length reqs] =
           Some \<lparr>registro = us @ [nuevoUsuario (hd reqs)], fases = fases_serie (length reqs)\<rparr> \<and>
         length (filter (\<lambda>u. Usuario.Correo u = RegistroRequest.Correo (hd reqs))
                   (us @ [nuevoUsuario (hd reqs)])) = 1"
proof -
  have h: "hd reqs = reqs ! 0" and l0: "0 < length reqs"
    using assms(1) by (simp_all add: hd_conv_nth)
  have r: "bienFormada T (hd reqs)" "\<not> list_ex (coincide (hd reqs)) us"
    using assms(2,4) l0 h by (simp_all add: list_all_length)
  have l: "0 < length (map Some reqs)"
    using l0 by simp
  have p: "fases (inicial us) 0 = Pendiente"
    by (simp add: inicial_def)
  have u: "(\<lambda>i. Pendiente)(0 := Terminada (StatusCreated, Usuario_registrado_exitosamente)) =
      fases_serie 1"
    by (auto simp: fases_serie_def fun_eq_iff)
  have i0: "invocar T (map Some reqs) (inicial us) 0 =
      Some \<lparr>registro = us @ [nuevoUsuario (hd reqs)], fases = fases_serie 1\<rparr>"
    using invocar_registroHandler [OF l p, of T] l0 registroHandler_primero [OF r] u
    by (simp add: h inicial_def)
  have "[0..<length reqs] = 0 # [1..<length reqs]"
    using l0 by (simp add: upt_conv_Cons)
  moreover have "serie T (map Some reqs)
      \<lparr>registro = us @ [nuevoUsuario (hd reqs)], fases = fases_serie 1\<rparr> [1..<length reqs] =
      Some \<lparr>registro = us @ [nuevoUsuario (hd reqs)], fases = fases_serie (length reqs)\<rparr>"
    using serie_resto [OF assms(2,3,4), of 1] l0 by simp
  ultimately have a: "serie T (map Some reqs) (inicial us) [0..<length reqs] =
      Some \<lparr>registro = us @ [nuevoUsuario (hd reqs)], fases = fases_serie (length reqs)\<rparr>"
    using i0 by simp
  have "filter (\<lambda>u. Usuario.Correo u = RegistroRequest.Correo (hd reqs)) us = []"
    using r(2) by (auto simp: filter_empty_conv list_ex_iff coincide_def)
  then show ?thesis
    using a by (simp add: nuevoUsuario_def)
qed

text \<open>The theorem at three requests of one email and the empty registry.\<close>

theorem registro_en_serie_witness:
  "peticiones_serie \<noteq> [] \<and> list_all (bienFormada tablas_extracto) peticiones_serie \<and>
   list_all (\<lambda>r. RegistroRequest.Correo r = RegistroRequest.Correo (hd peticiones_serie))
     peticiones_serie \<and>
   serie tablas_extracto (map Some peticiones_serie) (inicial []) [0..<length peticiones_serie] =
     Some \<lparr>registro = [] @ [nuevoUsuario (hd peticiones_serie)],
           fases = fases_serie (length peticiones_serie)\<rparr> \<and>
   length (filter (\<lambda>u. Usuario.Correo u = RegistroRequest.Correo (hd peticiones_serie))
             ([] @ [nuevoUsuario (hd peticiones_serie)])) = 1 \<and>
   nuevoUsuario (hd peticiones_serie) = usuario_a \<and>
   map (fases_serie (length peticiones_serie)) [0, 1, 2, 3] =
     [Terminada (StatusCreated, Usuario_registrado_exitosamente),
      Terminada (StatusConflict, ErrorRegistro El_correo_ya_se_encuentra_registrado),
      Terminada (StatusConflict, ErrorRegistro El_correo_ya_se_encuentra_registrado),
      Pendiente]"
proof -
  have h1: "peticiones_serie \<noteq> []"
    by (simp add: peticiones_serie_def)
  have h2: "list_all (bienFormada tablas_extracto) peticiones_serie"
    by (simp add: peticiones_serie_def bienFormada_a bienFormada_mismo_correo)
  have h3: "list_all (\<lambda>r. RegistroRequest.Correo r = RegistroRequest.Correo (hd peticiones_serie))
      peticiones_serie"
    by (simp add: peticiones_serie_def peticion_a_def peticion_mismo_correo_def)
  have h4: "list_all (\<lambda>r. \<not> list_ex (coincide r) []) peticiones_serie"
    by (simp add: list_all_iff)
  have n: "nuevoUsuario (hd peticiones_serie) = usuario_a"
    by (simp add: peticiones_serie_def nuevoUsuario_def peticion_a_def usuario_a_def)
  have f: "map (fases_serie (length peticiones_serie)) [0, 1, 2, 3] =
     [Terminada (StatusCreated, Usuario_registrado_exitosamente),
      Terminada (StatusConflict, ErrorRegistro El_correo_ya_se_encuentra_registrado),
      Terminada (StatusConflict, ErrorRegistro El_correo_ya_se_encuentra_registrado),
      Pendiente]"
    by (simp add: peticiones_serie_def fases_serie_def)
  show ?thesis
    using registro_en_serie [OF h1 h2 h3 h4] h1 h2 h3 n f by blast
qed

lemma revisar_ejemplo: "revisar tablas_extracto [] (Some peticion_a) = None"
  by (simp add: revisar_bienFormada bienFormada_a)

text \<open>
  Claim C9 as stated fails: two calls with the request of the scenario on the empty
  registry, both running their checks before either inserts, both answer 201, and the
  registry ends with two identities of the one email.
\<close>

theorem registro_solapado_counterexample:
  "map_option registro
     (correr tablas_extracto [Some peticion_a, Some peticion_a] (inicial [])
        [Revisar 0, Revisar 1, Insertar 0, Insertar 1]) = Some [usuario_a, usuario_a] \<and>
   map_option (\<lambda>s. [fases s 0, fases s 1])
     (correr tablas_extracto [Some peticion_a, Some peticion_a] (inicial [])
        [Revisar 0, Revisar 1, Insertar 0, Insertar 1]) =
     Some [Terminada (StatusCreated, Usuario_registrado_exitosamente),
           Terminada (StatusCreated, Usuario_registrado_exitosamente)]"
  by (simp add: inicial_def revisar_ejemplo)
     (simp add: nuevoUsuario_def peticion_a_def usuario_a_def)

section \<open>The authentication flow\<close>

lemma buscarUsuario_None:
  "buscarUsuario us req = None \<longleftrightarrow>
     \<not> list_ex (\<lambda>u. Usuario.Correo u = LoginRequest.Correo req \<and>
                     Usuario.Password u = LoginRequest.Password req) us"
  by (induction us) auto

lemma buscarUsuario_Some:
  "buscarUsuario us req = Some u \<Longrightarrow>
     u \<in> set us \<and> Usuario.Correo u = LoginRequest.Correo req \<and>
     Usuario.Password u = LoginRequest.Password req"
  by (induction us) (auto split: if_splits)

text \<open>
  Claim C8. A login request with an email and a password, neither empty, that no stored
  identity matches in both is answered with status 401 and "Correo o contrasena
  incorrectos": one value, the same whether the email is unknown or the password is
  wrong.
\<close>

theorem login_credenciales_invalidas:
  assumes "LoginRequest.Correo req \<noteq> []" and "LoginRequest.Password req \<noteq> []"
    and "\<not> list_ex (\<lambda>u. Usuario.Correo u = LoginRequest.Correo req \<and>
                     Usuario.Password u = LoginRequest.Password req) usuarios"
  shows "loginHandler SignedString Now usuarios (Some req) =
           (StatusUnauthorized, ErrorLogin Correo_o_contrasena_incorrectos)"
  using assms by (simp add: loginHandler_def buscarUsuario_None [symmetric])

text \<open>
  The theorem at a registry of one user, for the email of the user with a wrong password
  and for an email that is not registered.
\<close>

theorem login_credenciales_invalidas_witness:
  "list_ex (\<lambda>u. Usuario.Correo u = LoginRequest.Correo login_a_mal) [usuario_a] \<and>
   loginHandler firma_simbolica reloj_ejemplo [usuario_a] (Some login_a_mal) =
     (StatusUnauthorized, ErrorLogin Correo_o_contrasena_incorrectos) \<and>
   list_all (\<lambda>u. Usuario.Correo u \<noteq> LoginRequest.Correo login_desconocido) [usuario_a] \<and>
   loginHandler firma_simbolica reloj_ejemplo [usuario_a] (Some login_desconocido) =
     (StatusUnauthorized, ErrorLogin Correo_o_contrasena_incorrectos)"
proof -
  have a: "LoginRequest.Correo login_a_mal \<noteq> []" "LoginRequest.Password login_a_mal \<noteq> []"
    "\<not> list_ex (\<lambda>u. Usuario.Correo u = LoginRequest.Correo login_a_mal \<and>
                     Usuario.Password u = LoginRequest.Password login_a_mal) [usuario_a]"
    by (simp_all add: login_a_mal_def usuario_a_def)
  have d: "LoginRequest.Correo login_desconocido \<noteq> []"
    "LoginRequest.Password login_desconocido \<noteq> []"
    "\<not> list_ex (\<lambda>u. Usuario.Correo u = LoginRequest.Correo login_desconocido \<and>
                     Usuario.Password u = LoginRequest.Password login_desconocido) [usuario_a]"
    by (simp_all add: login_desconocido_def usuario_a_def)
  show ?thesis
    using login_credenciales_invalidas [OF a, of firma_simbolica reloj_ejemplo]
      login_credenciales_invalidas [OF d, of firma_simbolica reloj_ejemplo]
    by (simp add: login_a_mal_def login_desconocido_def usuario_a_def)
qed

lemma Unix_Add_dia: "Unix (Add t (Hour * 24)) = Unix t + 86400"
  by (simp add: Unix_def Add_def Hour_def)

lemma login_ejemplo:
  "loginHandler firma_simbolica reloj_ejemplo [usuario_a] (Some login_a) =
     (StatusOK,
      LoginResponse
        (\<lparr>Method = SigningMethodHS256,
          Claims = [''correo'' \<mapsto> VString ''a@b.com'', ''exp'' \<mapsto> VInt 1756164281]\<rparr>,
         jwtKey)
        1756077882000010000)"
  by (simp add: loginHandler_def login_a_def usuario_a_def firma_simbolica_def reloj_ejemplo_def
        NewWithClaims_def Unix_def Add_def Hour_def)

text \<open>
  Claim C7, as the code has it. After a login answered with status 200, the token string
  is what \<^verbatim>\<open>SignedString\<close> gave for the key of the service and a token of method
  HS256 whose claims are exactly \<^verbatim>\<open>correo\<close>, the email of the matched identity, and
  \<^verbatim>\<open>exp\<close>, the Unix seconds of the first reading of the clock plus 24 hours (86400
  seconds). The timestamp returned with the token is the second reading of the clock,
  taken after the token is signed.
\<close>

theorem login_token:
  assumes "loginHandler SignedString Now usuarios body =
             (StatusOK, LoginResponse tokenString fecha)"
  shows "\<exists>req usuario. body = Some req \<and> buscarUsuario usuarios req = Some usuario \<and>
           Usuario.Correo usuario = LoginRequest.Correo req \<and>
           Usuario.Password usuario = LoginRequest.Password req \<and>
           SignedString
             \<lparr>Method = SigningMethodHS256,
              Claims = [''correo'' \<mapsto> VString (Usuario.Correo usuario),
                        ''exp'' \<mapsto> VInt (Unix (Now 0) + 86400)]\<rparr> jwtKey = Some tokenString \<and>
           fecha = Now 1"
  using assms
  by (auto simp: loginHandler_def Let_def NewWithClaims_def Unix_Add_dia StatusOK_def
        StatusBadRequest_def StatusUnauthorized_def StatusInternalServerError_def
      split: option.splits if_splits dest: buscarUsuario_Some)

text \<open>
  The theorem at the login of the registered user of the scenario, with the signer that
  keeps what it signs.
\<close>

theorem login_token_witness:
  "loginHandler firma_simbolica reloj_ejemplo [usuario_a] (Some login_a) =
     (StatusOK,
      LoginResponse
        (\<lparr>Method = SigningMethodHS256,
          Claims = [''correo'' \<mapsto> VString ''a@b.com'', ''exp'' \<mapsto> VInt 1756164281]\<rparr>,
         jwtKey)
        1756077882000010000) \<and>
   (\<exists>req usuario. Some login_a = Some req \<and> buscarUsuario [usuario_a] req = Some usuario \<and>
      Usuario.Correo usuario = LoginRequest.Correo req \<and>
      Usuario.Password usuario = LoginRequest.Password req \<and>
      firma_simbolica
        \<lparr>Method = SigningMethodHS256,
         Claims = [''correo'' \<mapsto> VString (Usuario.Correo usuario),
                   ''exp'' \<mapsto> VInt (Unix (reloj_ejemplo 0) + 86400)]\<rparr> jwtKey =
        Some (\<lparr>Method = SigningMethodHS256,
                Claims = [''correo'' \<mapsto> VString ''a@b.com'',
                          ''exp'' \<mapsto> VInt 1756164281]\<rparr>, jwtKey) \<and>
      1756077882000010000 = reloj_ejemplo 1)"
  using login_token [OF login_ejemplo] login_ejemplo by (intro conjI)

text \<open>
  Claim C7 as stated fails: the two readings of the clock are two calls of
  \<^verbatim>\<open>time.Now()\<close>. With a first reading 10 microseconds before the start of a second
  and a second reading 10 microseconds after it, the claim \<^verbatim>\<open>exp\<close> of the token is
  1756164281, while the timestamp returned with the token plus 24 hours is the second
  1756164282.
\<close>

theorem login_exp_counterexample:
  "loginHandler firma_simbolica reloj_ejemplo [usuario_a] (Some login_a) =
     (StatusOK,
      LoginResponse
        (\<lparr>Method = SigningMethodHS256,
          Claims = [''correo'' \<mapsto> VString ''a@b.com'', ''exp'' \<mapsto> VInt 1756164281]\<rparr>,
         jwtKey)
        1756077882000010000) \<and>
   Unix (Add 1756077882000010000 (Hour * 24)) = 1756164282"
  by (simp add: login_ejemplo) (simp add: Unix_def Add_def Hour_def)

section \<open>The decoder and the validators\<close>

lemma mod_range:
  assumes "q * m \<le> (b::nat)" and "b < q * m + m"
  shows "b mod m = b - q * m"
proof -
  have "b = (b - q * m) + q * m"
    using assms(1) by simp
  then have "b mod m = ((b - q * m) + q * m) mod m"
    by simp
  also have "\<dots> = (b - q * m) mod m"
    by simp
  also have "\<dots> = b - q * m"
    using assms by simp
  finally show ?thesis .
qed

lemma rune2: "194 \<le> (b::nat) \<Longrightarrow> b \<le> 223 \<Longrightarrow> 128 \<le> b mod 32 * 64 + x"
  using mod_range [of 6 32 b] by simp

lemma rune3b: "225 \<le> (b::nat) \<Longrightarrow> b \<le> 239 \<Longrightarrow> 128 \<le> b mod 16 * 4096 + x"
  using mod_range [of 14 16 b] by simp

lemma rune4b: "241 \<le> (b::nat) \<Longrightarrow> b \<le> 244 \<Longrightarrow> 128 \<le> b mod 8 * 262144 + x"
  using mod_range [of 30 8 b] by simp

lemma rune3a': "160 \<le> (c::nat) \<Longrightarrow> c \<le> 191 \<Longrightarrow> 128 \<le> c mod 64 * 64 + x"
  using mod_range [of 2 64 c] by simp

lemma rune4a': "144 \<le> (c::nat) \<Longrightarrow> c \<le> 191 \<Longrightarrow> 128 \<le> c mod 64 * 4096 + x"
  using mod_range [of 2 64 c] by simp

lemma DecodeRune_ascii: "s0 < 128 \<Longrightarrow> DecodeRune (s0 # rest) = (s0, 1)"
  by (simp add: RuneSelf_def)

lemma DecodeRune_nonascii:
  assumes "\<not> s0 < 128"
  shows "128 \<le> fst (DecodeRune (s0 # rest))"
proof (cases "first s0")
  case None
  then show ?thesis using assms by (simp add: RuneSelf_def RuneError_def)
next
  case (Some t)
  obtain sz lo hi where t: "t = (sz, lo, hi)" by (cases t)
  have f: "first s0 = Some (sz, lo, hi)" using Some t by simp
  from f consider
      (A) "194 \<le> s0" "s0 \<le> 223" "sz = 2" "lo = 128" "hi = 191"
    | (B) "s0 = 224" "sz = 3" "lo = 160" "hi = 191"
    | (C) "225 \<le> s0" "s0 \<le> 239" "sz = 3" "lo = 128" "hi \<le> 191"
    | (E) "s0 = 240" "sz = 4" "lo = 144" "hi = 191"
    | (F) "241 \<le> s0" "s0 \<le> 244" "sz = 4" "lo = 128" "hi \<le> 191"
    by (auto simp: first_def locb_def hicb_def split: if_splits)
  then show ?thesis
  proof cases
    case A
    then show ?thesis using assms f
      by (simp add: RuneSelf_def RuneError_def Let_def rune2)
  next
    case B
    then show ?thesis using assms f
      by (simp add: RuneSelf_def RuneError_def Let_def locb_def hicb_def rune3a')
  next
    case C
    then show ?thesis using assms f
      by (simp add: RuneSelf_def RuneError_def Let_def locb_def hicb_def rune3b add.assoc)
  next
    case E
    then show ?thesis using assms f
      by (simp add: RuneSelf_def RuneError_def Let_def locb_def hicb_def rune4a' add.assoc)
  next
    case F
    then show ?thesis using assms f
      by (simp add: RuneSelf_def RuneError_def Let_def locb_def hicb_def rune4b add.assoc)
  qed
qed

declare DecodeRune.simps(2) [simp del]

lemma runes_Cons_ascii: "b < 128 \<Longrightarrow> runes (b # bs) = b # runes bs"
  by (simp add: DecodeRune_ascii)

lemma runes_Cons_nonascii:
  "\<not> b < 128 \<Longrightarrow> \<exists>r rs. runes (b # bs) = r # rs \<and> 128 \<le> r"
  using DecodeRune_nonascii [of b bs] by (simp add: case_prod_beta)

declare runes.simps(2) [simp del]

lemma runes_ascii_all:
  assumes "\<And>r. P r \<Longrightarrow> r < 128"
  shows "list_all P (runes bs) \<longleftrightarrow> list_all P bs"
proof (induction bs)
  case Nil
  show ?case by simp
next
  case (Cons b bs)
  show ?case
  proof (cases "b < 128")
    case True
    then show ?thesis
      using Cons.IH by (simp add: runes_Cons_ascii)
  next
    case False
    then obtain r rs where r: "runes (b # bs) = r # rs" "128 \<le> r"
      using runes_Cons_nonascii by blast
    have "\<not> P r"
      using r(2) assms by fastforce
    moreover have "\<not> P b"
      using False assms by blast
    ultimately show ?thesis
      by (simp add: r(1))
  qed
qed

lemma runes_ascii:
  "list_all (\<lambda>b. b < 128) bs \<Longrightarrow> runes bs = bs"
  by (induction bs) (simp_all add: runes_Cons_ascii)

lemma todos_digitos:
  "list_all (\<lambda>c. \<not> (c < lit CHR ''0'' \<or> c > lit CHR ''9'')) (range_string s) \<longleftrightarrow>
     list_all digitoASCII s"
proof -
  have "list_all (\<lambda>c. \<not> (c < lit CHR ''0'' \<or> c > lit CHR ''9'')) (runes (bytes s)) \<longleftrightarrow>
      list_all (\<lambda>c. \<not> (c < lit CHR ''0'' \<or> c > lit CHR ''9'')) (bytes s)"
    by (rule runes_ascii_all) (simp add: lit_def)
  then show ?thesis
    by (simp add: range_string_def bytes_def list.pred_map digitoASCII_def [abs_def] lit_def
          comp_def not_less)
qed

lemma digitos_range:
  assumes "list_all digitoASCII s"
  shows "range_string s = bytes s"
proof -
  have "list_all (\<lambda>b. b < 128) (bytes s)"
    using assms by (induction s) (simp_all add: bytes_def digitoASCII_def lit_def)
  then show ?thesis
    by (simp add: range_string_def runes_ascii)
qed

text \<open>
  Claim C6. \<^verbatim>\<open>validarTelefono\<close> accepts a string exactly when it is 10 characters
  long and each of its characters is an ASCII digit; this holds with the characters of
  the string being its bytes, and with them being the runes of its \<^verbatim>\<open>range\<close> loop.
  So it rejects every string whose length is not 10 and every string that has a
  character that is not a digit.
\<close>

theorem validarTelefono_diez_digitos:
  "(validarTelefono s \<longleftrightarrow> length s = 10 \<and> list_all digitoASCII s) \<and>
   (validarTelefono s \<longleftrightarrow>
      length (range_string s) = 10 \<and>
      list_all (\<lambda>r. lit CHR ''0'' \<le> r \<and> r \<le> lit CHR ''9'') (range_string s)) \<and>
   (length s \<noteq> 10 \<longrightarrow> \<not> validarTelefono s) \<and>
   (\<not> list_all digitoASCII s \<longrightarrow> \<not> validarTelefono s)"
proof -
  have a: "validarTelefono s \<longleftrightarrow> length s = 10 \<and> list_all digitoASCII s"
    unfolding validarTelefono_def todos_digitos by simp
  have r: "list_all (\<lambda>r. lit CHR ''0'' \<le> r \<and> r \<le> lit CHR ''9'') (range_string s) \<longleftrightarrow>
      list_all digitoASCII s"
    using todos_digitos [of s] by (simp add: not_less)
  have b: "list_all digitoASCII s \<Longrightarrow> length (range_string s) = length s"
    by (simp add: digitos_range bytes_def)
  show ?thesis
    using a r b by auto
qed

text \<open>
  The theorem at the phone of the scenario, at a string of nine digits, and at two
  strings of ten characters with a letter and with a plus sign.
\<close>

theorem validarTelefono_diez_digitos_witness:
  "validarTelefono ''5551234567'' \<and> length ''5551234567'' = 10 \<and>
   list_all digitoASCII ''5551234567'' \<and>
   \<not> validarTelefono ''555123456'' \<and> \<not> validarTelefono ''55512345a7'' \<and>
   \<not> validarTelefono ''+525512345''"
proof -
  have "list_all digitoASCII ''5551234567''"
    by (simp add: digitoASCII_def lit_def)
  moreover have "\<not> list_all digitoASCII ''55512345a7''" "\<not> list_all digitoASCII ''+525512345''"
    by (simp_all add: digitoASCII_def lit_def)
  ultimately show ?thesis
    using validarTelefono_diez_digitos [of "''5551234567''"] validarTelefono_diez_digitos [of "''555123456''"]
      validarTelefono_diez_digitos [of "''55512345a7''"] validarTelefono_diez_digitos [of "''+525512345''"]
    by simp
qed

lemma ContainsRune_especiales:
  "ContainsRune especiales c \<longleftrightarrow>
     c = lit CHR ''@'' \<or> c = lit CHR ''$'' \<or> c = lit CHR ''&''"
  by (auto simp: ContainsRune_def range_string_def bytes_def especiales_def runes_Cons_ascii
        lit_def)

lemma clasificar_campos:
  "tieneMayus (clasificar T b r) = (tieneMayus b \<or> IsUpper T r)"
  "tieneMinus (clasificar T b r) = (tieneMinus b \<or> \<not> IsUpper T r \<and> IsLower T r)"
  "tieneNumero (clasificar T b r) =
     (tieneNumero b \<or> \<not> IsUpper T r \<and> \<not> IsLower T r \<and> IsDigit T r)"
  "tieneEspecial (clasificar T b r) =
     (tieneEspecial b \<or>
      \<not> IsUpper T r \<and> \<not> IsLower T r \<and> \<not> IsDigit T r \<and> ContainsRune especiales r)"
  by (simp_all add: clasificar_def)

lemma foldl_clasificar:
  "foldl (clasificar T) b rs =
     \<lparr>tieneMayus = tieneMayus b \<or> list_ex (IsUpper T) rs,
      tieneMinus = tieneMinus b \<or> list_ex (\<lambda>c. \<not> IsUpper T c \<and> IsLower T c) rs,
      tieneNumero = tieneNumero b \<or>
        list_ex (\<lambda>c. \<not> IsUpper T c \<and> \<not> IsLower T c \<and> IsDigit T c) rs,
      tieneEspecial = tieneEspecial b \<or>
        list_ex (\<lambda>c. \<not> IsUpper T c \<and> \<not> IsLower T c \<and> \<not> IsDigit T c \<and>
                      ContainsRune especiales c) rs\<rparr>"
proof (induction rs arbitrary: b)
  case Nil
  show ?case by simp
next
  case (Cons r rs)
  show ?case
    by (simp add: Cons.IH clasificar_campos disj_assoc)
qed

lemma clases_disjuntas:
  assumes "\<And>r. \<not> (Upper T r \<and> Lower T r)" and "\<And>r. \<not> (Upper T r \<and> Digit T r)"
    and "\<And>r. \<not> (Lower T r \<and> Digit T r)"
  shows "IsLower T c \<Longrightarrow> \<not> IsUpper T c"
    and "IsDigit T c \<Longrightarrow> \<not> IsUpper T c \<and> \<not> IsLower T c"
    and "ContainsRune especiales c \<Longrightarrow> \<not> IsUpper T c \<and> \<not> IsLower T c \<and> \<not> IsDigit T c"
  using assms
  by (auto simp: IsUpper_def IsLower_def IsDigit_def MaxLatin1_def ContainsRune_especiales
        lit_def split: if_splits)

text \<open>
  What \<^verbatim>\<open>validarPassword\<close> computes: it accepts a string exactly when its length
  (\<^verbatim>\<open>len\<close>, the number of its bytes) is between 6 and 12 and its characters (the
  runes of the \<^verbatim>\<open>range\<close> loop) include an uppercase letter, a lowercase letter, a
  decimal digit and one of \<^verbatim>\<open>@\<close>, \<^verbatim>\<open>$\<close>, \<^verbatim>\<open>&\<close>. The range tables of the Go
  library are a parameter; the hypotheses say of them what holds of the Unicode
  categories Lu, Ll and Nd they list: no rune is in two of them.
\<close>

theorem validarPassword_iff:
  assumes "\<And>r. \<not> (Upper T r \<and> Lower T r)" and "\<And>r. \<not> (Upper T r \<and> Digit T r)"
    and "\<And>r. \<not> (Lower T r \<and> Digit T r)"
  shows "validarPassword T s \<longleftrightarrow>
     6 \<le> length s \<and> length s \<le> 12 \<and>
     list_ex (IsUpper T) (range_string s) \<and>
     list_ex (IsLower T) (range_string s) \<and>
     list_ex (IsDigit T) (range_string s) \<and>
     list_ex (\<lambda>c. c = lit CHR ''@'' \<or> c = lit CHR ''$'' \<or> c = lit CHR ''&'') (range_string s)"
proof -
  note d = clases_disjuntas [OF assms]
  have l: "list_ex (\<lambda>c. \<not> IsUpper T c \<and> IsLower T c) rs \<longleftrightarrow> list_ex (IsLower T) rs" for rs
    using d(1) by (auto simp: list_ex_iff)
  have n: "list_ex (\<lambda>c. \<not> IsUpper T c \<and> \<not> IsLower T c \<and> IsDigit T c) rs \<longleftrightarrow>
      list_ex (IsDigit T) rs" for rs
    using d(2) by (auto simp: list_ex_iff)
  have e: "list_ex (\<lambda>c. \<not> IsUpper T c \<and> \<not> IsLower T c \<and> \<not> IsDigit T c \<and>
      ContainsRune especiales c) rs \<longleftrightarrow>
      list_ex (\<lambda>c. c = lit CHR ''@'' \<or> c = lit CHR ''$'' \<or> c = lit CHR ''&'') rs" for rs
    using d(3) by (auto simp: list_ex_iff ContainsRune_especiales)
  show ?thesis
    by (auto simp: validarPassword_def foldl_clasificar l n e Let_def)
qed

lemma tablas_extracto_disjuntas:
  "\<not> (Upper tablas_extracto r \<and> Lower tablas_extracto r)"
  "\<not> (Upper tablas_extracto r \<and> Digit tablas_extracto r)"
  "\<not> (Lower tablas_extracto r \<and> Digit tablas_extracto r)"
  by (simp_all add: tablas_extracto_def)

text \<open>
  The theorem with the excerpt of the tables, at the password of the scenario, at two
  passwords it rejects (no uppercase letter; four bytes) and at the password with the
  Greek letter.
\<close>

theorem validarPassword_iff_witness:
  "validarPassword tablas_extracto ''Pass123@'' \<and>
   \<not> validarPassword tablas_extracto ''simple'' \<and>
   \<not> validarPassword tablas_extracto ''Pa1@'' \<and>
   length password_alfa = 6 \<and> range_string password_alfa = [0x391, 0x62, 0x31, 0x40, 0x78] \<and>
   validarPassword tablas_extracto password_alfa"
proof -
  note t = validarPassword_iff [of tablas_extracto, OF tablas_extracto_disjuntas]
  have a: "6 \<le> length ''Pass123@'' \<and> length ''Pass123@'' \<le> 12 \<and>
     list_ex (IsUpper tablas_extracto) (range_string ''Pass123@'') \<and>
     list_ex (IsLower tablas_extracto) (range_string ''Pass123@'') \<and>
     list_ex (IsDigit tablas_extracto) (range_string ''Pass123@'') \<and>
     list_ex (\<lambda>c. c = lit CHR ''@'' \<or> c = lit CHR ''$'' \<or> c = lit CHR ''&'')
       (range_string ''Pass123@'')"
    by code_simp
  have b: "\<not> list_ex (IsUpper tablas_extracto) (range_string ''simple'')"
    by code_simp
  have c: "\<not> 6 \<le> length ''Pa1@''"
    by simp
  have r: "range_string password_alfa = [0x391, 0x62, 0x31, 0x40, 0x78]"
    by code_simp
  have d: "6 \<le> length password_alfa \<and> length password_alfa \<le> 12 \<and>
     list_ex (IsUpper tablas_extracto) (range_string password_alfa) \<and>
     list_ex (IsLower tablas_extracto) (range_string password_alfa) \<and>
     list_ex (IsDigit tablas_extracto) (range_string password_alfa) \<and>
     list_ex (\<lambda>c. c = lit CHR ''@'' \<or> c = lit CHR ''$'' \<or> c = lit CHR ''&'')
       (range_string password_alfa)"
    by code_simp
  have l: "length password_alfa = 6"
    by (simp add: password_alfa_def)
  show ?thesis
    using t [of "''Pass123@''"] t [of "''simple''"] t [of "''Pa1@''"] t [of password_alfa]
      a b c d r l
    by blast
qed

lemma range_password_corta: "range_string password_corta = [0x41, 0x61, 0x31, 0x40, 0xF1]"
  by code_simp

lemma range_password_larga:
  "range_string password_larga = [0x41, 0x61, 0x31, 0x40, 0xF1, 0xF1, 0xF1, 0xF1, 0xF1]"
  by code_simp

text \<open>
  Claim C3. The docstring of \<^verbatim>\<open>validarPassword\<close> (line 141) asks for a length of 6
  to 12 characters, and the function compares \<^verbatim>\<open>len(password)\<close>, the number of
  bytes. Counted in characters the claim fails in both directions, whatever the range
  tables: the password of five characters and six bytes is accepted, and the password
  of nine characters and fourteen bytes, which has an uppercase letter, a lowercase
  letter, a digit and \<^verbatim>\<open>@\<close>, is rejected.
\<close>

theorem validarPassword_cuenta_bytes:
  "length (range_string password_corta) = 5 \<and> validarPassword T password_corta \<and>
   length (range_string password_larga) = 9 \<and>
   list_ex (IsUpper T) (range_string password_larga) \<and>
   list_ex (IsLower T) (range_string password_larga) \<and>
   list_ex (IsDigit T) (range_string password_larga) \<and>
   list_ex (\<lambda>c. c = lit CHR ''@'' \<or> c = lit CHR ''$'' \<or> c = lit CHR ''&'')
     (range_string password_larga) \<and>
   \<not> validarPassword T password_larga"
proof -
  have c: "validarPassword T password_corta"
    unfolding validarPassword_def range_password_corta
    by (simp add: password_corta_def clasificar_def IsUpper_def IsLower_def IsDigit_def
          MaxLatin1_def ContainsRune_especiales lit_def)
  have l: "\<not> validarPassword T password_larga"
    by (simp add: validarPassword_def password_larga_def)
  show ?thesis
    using c l
    by (simp add: range_password_corta range_password_larga IsUpper_def IsLower_def IsDigit_def
          MaxLatin1_def lit_def)
qed

section \<open>Trimming and the email validator\<close>

declare TrimRightFunc.simps [simp del]

lemma first_Some:
  assumes "first b = Some (sz, lo, hi)"
  shows "(sz = 2 \<or> sz = 3 \<or> sz = 4) \<and> 128 \<le> lo \<and> hi \<le> 191 \<and> 194 \<le> b \<and> b \<le> 244"
  using assms by (auto simp: first_def locb_def hicb_def split: if_splits)

lemma DecodeRune_None:
  "\<not> s0 < 128 \<Longrightarrow> first s0 = None \<Longrightarrow> DecodeRune (s0 # rest) = (RuneError, 1)"
  by (simp add: DecodeRune.simps(2) RuneSelf_def)

lemma DecodeRune_2:
  assumes "\<not> s0 < 128" and "first s0 = Some (2, lo, hi)"
  shows "DecodeRune (s0 # rest) =
    (if rest = [] \<or> rest ! 0 < lo \<or> hi < rest ! 0 then (RuneError, 1)
     else (s0 mod 32 * 64 + rest ! 0 mod 64, 2))"
  using assms by (cases rest) (simp_all add: DecodeRune.simps(2) RuneSelf_def Let_def)

lemma DecodeRune_3:
  assumes "\<not> s0 < 128" and "first s0 = Some (3, lo, hi)"
  shows "DecodeRune (s0 # rest) =
    (if length rest < 2 \<or> rest ! 0 < lo \<or> hi < rest ! 0 \<or> rest ! 1 < 128 \<or> 191 < rest ! 1
     then (RuneError, 1)
     else (s0 mod 16 * 4096 + rest ! 0 mod 64 * 64 + rest ! 1 mod 64, 3))"
  using assms
  by (simp add: DecodeRune.simps(2) RuneSelf_def Let_def locb_def hicb_def)

lemma DecodeRune_4:
  assumes "\<not> s0 < 128" and "first s0 = Some (4, lo, hi)"
  shows "DecodeRune (s0 # rest) =
    (if length rest < 3 \<or> rest ! 0 < lo \<or> hi < rest ! 0 \<or> rest ! 1 < 128 \<or> 191 < rest ! 1 \<or>
        rest ! 2 < 128 \<or> 191 < rest ! 2
     then (RuneError, 1)
     else (s0 mod 8 * 262144 + rest ! 0 mod 64 * 4096 + rest ! 1 mod 64 * 64 + rest ! 2 mod 64, 4))"
  using assms
  by (simp add: DecodeRune.simps(2) RuneSelf_def Let_def locb_def hicb_def)

lemma DecodeRune_casos:
  assumes "\<not> s0 < 128"
  obtains (None) "first s0 = None"
    | (two) lo hi where "first s0 = Some (2, lo, hi)" "128 \<le> lo"
    | (three) lo hi where "first s0 = Some (3, lo, hi)" "128 \<le> lo"
    | (four) lo hi where "first s0 = Some (4, lo, hi)" "128 \<le> lo"
proof (cases "first s0")
  case None
  then show ?thesis by (rule that(1))
next
  case (Some t)
  obtain sz lo hi where t: "t = (sz, lo, hi)" by (cases t)
  have f: "first s0 = Some (sz, lo, hi)" using Some t by simp
  from first_Some [OF f] have "sz = 2 \<or> sz = 3 \<or> sz = 4" and "128 \<le> lo" by simp_all
  then show ?thesis using f that(2-4) by blast
qed

lemma DecodeRune_append:
  assumes "DecodeRune bs = (r, n)" and "r \<noteq> RuneError"
  shows "DecodeRune (bs @ v) = (r, n)"
proof (cases bs)
  case Nil
  then show ?thesis using assms by simp
next
  case (Cons s0 rest)
  show ?thesis
  proof (cases "s0 < 128")
    case True
    then show ?thesis using assms Cons by (simp add: DecodeRune_ascii)
  next
    case False
    then show ?thesis
    proof (cases rule: DecodeRune_casos)
      case None
      then show ?thesis using assms Cons False by (simp add: DecodeRune_None)
    next
      case (two lo hi)
      then show ?thesis using assms Cons False
        by (simp add: DecodeRune_2 nth_append split: if_splits)
    next
      case (three lo hi)
      then show ?thesis using assms Cons False
        by (auto simp: DecodeRune_3 nth_append split: if_splits)
    next
      case (four lo hi)
      then show ?thesis using assms Cons False
        by (auto simp: DecodeRune_4 nth_append split: if_splits)
    qed
  qed
qed

lemma DecodeRune_valid_bytes:
  assumes "DecodeRune (s0 # rest) = (r, n)" and "r \<noteq> RuneError" and "\<not> s0 < 128"
  shows "n \<le> Suc (length rest) \<and> list_all (\<lambda>b. 128 \<le> b) (take n (s0 # rest))"
  using assms(3)
proof (cases rule: DecodeRune_casos)
  case None
  then show ?thesis using assms by (simp add: DecodeRune_None)
next
  case (two lo hi)
  then show ?thesis using assms
    by (cases rest) (auto simp: DecodeRune_2 split: if_splits)
next
  case (three lo hi)
  show ?thesis
  proof (cases rest)
    case Nil
    then show ?thesis using assms three by (simp add: DecodeRune_3)
  next
    case a: (Cons s1 rest1)
    show ?thesis
    proof (cases rest1)
      case Nil
      then show ?thesis using assms three a by (simp add: DecodeRune_3)
    next
      case (Cons s2 rest2)
      then show ?thesis using assms three a
        by (auto simp: DecodeRune_3 split: if_splits)
    qed
  qed
next
  case (four lo hi)
  show ?thesis
  proof (cases rest)
    case Nil
    then show ?thesis using assms four by (simp add: DecodeRune_4)
  next
    case a: (Cons s1 rest1)
    show ?thesis
    proof (cases rest1)
      case Nil
      then show ?thesis using assms four a by (simp add: DecodeRune_4)
    next
      case b: (Cons s2 rest2)
      show ?thesis
      proof (cases rest2)
        case Nil
        then show ?thesis using assms four a b by (simp add: DecodeRune_4)
      next
        case (Cons s3 rest3)
        then show ?thesis using assms four a b
          by (auto simp: DecodeRune_4 split: if_splits)
      qed
    qed
  qed
qed

lemma IsSpace_RuneError: "\<not> IsSpace RuneError"
  by (simp add: IsSpace_def RuneError_def MaxLatin1_def)

lemma IsSpace_ascii: "IsSpace b \<Longrightarrow> b < 128 \<Longrightarrow> b \<noteq> 64 \<and> b \<noteq> 46"
  by (auto simp: IsSpace_def MaxLatin1_def split: if_splits)

lemma DecodeRune_space_bytes:
  assumes "DecodeRune bs = (r, n)" and "IsSpace r" and "bs \<noteq> []"
  shows "list_all (\<lambda>b. b \<noteq> 64 \<and> b \<noteq> 46) (take n bs)"
proof -
  obtain s0 rest where bs: "bs = s0 # rest"
    using assms(3) by (cases bs) auto
  show ?thesis
  proof (cases "s0 < 128")
    case True
    then have "r = s0" "n = 1"
      using assms(1) bs by (simp_all add: DecodeRune_ascii)
    then show ?thesis
      using IsSpace_ascii [of s0] assms(2) True bs by simp
  next
    case False
    have "r \<noteq> RuneError"
      using assms(2) IsSpace_RuneError by blast
    from DecodeRune_valid_bytes [OF assms(1) [unfolded bs] this False]
    have "list_all (\<lambda>b. 128 \<le> b) (take n bs)"
      by (simp add: bs)
    then show ?thesis
      by (auto simp: list_all_iff)
  qed
qed

lemma ajeno_bytes:
  "list_all (\<lambda>b. b \<noteq> 64 \<and> b \<noteq> 46) (bytes w) \<Longrightarrow> list_all ajeno w"
  by (auto simp: list_all_iff bytes_def ajeno_def)

lemma length_bytes: "length (bytes s) = length s"
  by (simp add: bytes_def)

lemma bytes_take: "take n (bytes s) = bytes (take n s)"
  by (simp add: bytes_def take_map)

lemma bytes_drop: "drop n (bytes s) = bytes (drop n s)"
  by (simp add: bytes_def drop_map)

lemma TrimLeftFunc_pre:
  "\<exists>pre. s = pre @ TrimLeftFunc s IsSpace \<and> list_all ajeno pre"
proof (induction s IsSpace rule: TrimLeftFunc.induct)
  case 1
  show ?case by simp
next
  case (2 c cs)
  obtain r n where d: "DecodeRuneInString (c # cs) = (r, n)"
    by (cases "DecodeRuneInString (c # cs)")
  show ?case
  proof (cases "IsSpace r")
    case False
    then have "TrimLeftFunc (c # cs) IsSpace = c # cs"
      using d by simp
    then show ?thesis by simp
  next
    case True
    from "2.hyps" [OF d [symmetric] True]
    obtain pre where pre: "drop (n - 1) cs = pre @ TrimLeftFunc (drop (n - 1) cs) IsSpace"
      "list_all ajeno pre"
      by blast
    have d': "DecodeRune (bytes (c # cs)) = (r, n)"
      using d by (simp add: DecodeRuneInString_def)
    have ne: "bytes (c # cs) \<noteq> []"
      by (simp add: bytes_def)
    from DecodeRune_size [OF d' ne] have n: "1 \<le> n"
      by simp
    have "list_all ajeno (take n (c # cs))"
      using DecodeRune_space_bytes [OF d' True ne] by (simp add: bytes_take ajeno_bytes)
    moreover have "c # cs = take n (c # cs) @ drop (n - 1) cs"
      using n by (cases n) simp_all
    moreover have "TrimLeftFunc (c # cs) IsSpace = TrimLeftFunc (drop (n - 1) cs) IsSpace"
      using d True by simp
    ultimately show ?thesis
      using pre by (metis append.assoc list_all_append)
  qed
qed

lemma DecodeLastRune_space_bytes:
  assumes "DecodeLastRune bs = (r, n)" and "IsSpace r" and "bs \<noteq> []"
  shows "list_all (\<lambda>b. b \<noteq> 64 \<and> b \<noteq> 46) (drop (length bs - n) bs)"
proof (cases "bs ! (length bs - 1) < 128")
  case True
  then have rn: "r = bs ! (length bs - 1)" "n = 1"
    using assms(1,3) by (auto simp: DecodeLastRune_def RuneSelf_def)
  have "drop (length bs - 1) bs = [bs ! (length bs - 1)]"
    using assms(3) by (metis append_butlast_last_id butlast_conv_take drop_all last_conv_nth
        length_butlast order_refl same_append_eq append_take_drop_id)
  then show ?thesis
    using IsSpace_ascii [of "bs ! (length bs - 1)"] True assms(2) rn by simp
next
  case False
  obtain r' size where d: "DecodeRune (drop (lastStart bs) bs) = (r', size)"
    by (cases "DecodeRune (drop (lastStart bs) bs)")
  have ne: "drop (lastStart bs) bs \<noteq> []"
    using lastStart_less [OF assms(3)] by simp
  have eq: "lastStart bs + size = length bs \<and> r' = r \<and> size = n"
    using assms False d IsSpace_RuneError
    by (auto simp: DecodeLastRune_def RuneSelf_def Let_def split: if_splits)
  then have k: "length bs - n = lastStart bs" and l: "length bs - lastStart bs \<le> n"
    by auto
  have tk: "take size (drop (lastStart bs) bs) = drop (lastStart bs) bs"
    using l eq by simp
  have "IsSpace r'"
    using eq assms(2) by simp
  from DecodeRune_space_bytes [OF d this ne] show ?thesis
    by (simp only: tk k)
qed

lemma TrimRightFunc_Nil: "TrimRightFunc [] f = []"
  by (simp add: TrimRightFunc.simps)

lemma TrimRightFunc_step:
  "s \<noteq> [] \<Longrightarrow> DecodeLastRuneInString s = (r, n) \<Longrightarrow> f r \<Longrightarrow>
     TrimRightFunc s f = TrimRightFunc (take (length s - n) s) f"
  by (subst TrimRightFunc.simps) simp

lemma TrimRightFunc_stop:
  "s \<noteq> [] \<Longrightarrow> DecodeLastRuneInString s = (r, n) \<Longrightarrow> \<not> f r \<Longrightarrow> TrimRightFunc s f = s"
  by (subst TrimRightFunc.simps) simp

lemma TrimRightFunc_post:
  "\<exists>post. s = TrimRightFunc s IsSpace @ post \<and> list_all ajeno post"
proof (induction s IsSpace rule: TrimRightFunc.induct)
  case (1 s)
  show ?case
  proof (cases "s = []")
    case True
    then show ?thesis by (simp add: TrimRightFunc_Nil)
  next
    case ne: False
    obtain r n where d: "DecodeLastRuneInString s = (r, n)"
      by (cases "DecodeLastRuneInString s")
    show ?thesis
    proof (cases "IsSpace r")
      case False
      then show ?thesis
        using TrimRightFunc_stop [of s r n IsSpace, OF ne d] by simp
    next
      case True
      from "1.hyps" [OF ne d [symmetric] True]
      obtain post where post:
        "take (length s - n) s = TrimRightFunc (take (length s - n) s) IsSpace @ post"
        "list_all ajeno post"
        by blast
      have d': "DecodeLastRune (bytes s) = (r, n)"
        using d by (simp add: DecodeLastRuneInString_def)
      have ne': "bytes s \<noteq> []"
        using ne by (simp add: bytes_def)
      have "list_all (\<lambda>b. b \<noteq> 64 \<and> b \<noteq> 46) (bytes (drop (length s - n) s))"
        using DecodeLastRune_space_bytes [OF d' True ne']
        by (simp add: bytes_drop length_bytes)
      then have "list_all ajeno (drop (length s - n) s)"
        by (rule ajeno_bytes)
      moreover have "s = take (length s - n) s @ drop (length s - n) s"
        by simp
      moreover have "TrimRightFunc s IsSpace = TrimRightFunc (take (length s - n) s) IsSpace"
        using TrimRightFunc_step [of s r n IsSpace, OF ne d True] .
      ultimately show ?thesis
        using post by (metis append.assoc list_all_append)
    qed
  qed
qed

lemma TrimRightFunc_idem:
  "TrimRightFunc (TrimRightFunc s f) f = TrimRightFunc s f"
proof (induction s f rule: TrimRightFunc.induct)
  case (1 s f)
  show ?case
  proof (cases "s = []")
    case True
    then show ?thesis by (simp add: TrimRightFunc_Nil)
  next
    case ne: False
    obtain r n where d: "DecodeLastRuneInString s = (r, n)"
      by (cases "DecodeLastRuneInString s")
    show ?thesis
    proof (cases "f r")
      case False
      then show ?thesis
        using TrimRightFunc_stop [of s r n f, OF ne d] by simp
    next
      case True
      then show ?thesis
        using "1.IH" [OF ne d [symmetric] True] TrimRightFunc_step [of s r n f, OF ne d True]
        by simp
    qed
  qed
qed

lemma TrimLeftFunc_fijo: "sinInicial f s \<Longrightarrow> TrimLeftFunc s f = s"
  by (cases s) (auto simp: sinInicial_def split: prod.splits)

lemma TrimLeftFunc_sinInicial: "sinInicial f (TrimLeftFunc s f)"
proof (induction s f rule: TrimLeftFunc.induct)
  case (1 f)
  show ?case by (simp add: sinInicial_def)
next
  case (2 c cs f)
  obtain r n where d: "DecodeRuneInString (c # cs) = (r, n)"
    by (cases "DecodeRuneInString (c # cs)")
  show ?case
  proof (cases "f r")
    case True
    then show ?thesis
      using "2.IH" [OF d [symmetric] True] d by simp
  next
    case False
    then show ?thesis
      using d by (simp add: sinInicial_def)
  qed
qed

lemma sinInicial_prefijo:
  assumes "sinInicial f (u @ v)" and "\<not> f RuneError"
  shows "sinInicial f u"
proof (cases "u = []")
  case True
  then show ?thesis by (simp add: sinInicial_def)
next
  case False
  obtain r n where d: "DecodeRune (bytes u) = (r, n)"
    by (cases "DecodeRune (bytes u)")
  show ?thesis
  proof (cases "f r")
    case False
    then show ?thesis
      using d by (simp add: sinInicial_def DecodeRuneInString_def)
  next
    case True
    then have "r \<noteq> RuneError"
      using assms(2) by blast
    from DecodeRune_append [OF d this, of "bytes v"]
    have "DecodeRune (bytes (u @ v)) = (r, n)"
      by (simp add: bytes_def)
    then show ?thesis
      using assms(1) True \<open>u \<noteq> []\<close> by (simp add: sinInicial_def DecodeRuneInString_def)
  qed
qed

lemma TrimRightFunc_prefijo: "\<exists>post. s = TrimRightFunc s f @ post"
proof (induction s f rule: TrimRightFunc.induct)
  case (1 s f)
  show ?case
  proof (cases "s = []")
    case True
    then show ?thesis by (simp add: TrimRightFunc_Nil)
  next
    case ne: False
    obtain r n where d: "DecodeLastRuneInString s = (r, n)"
      by (cases "DecodeLastRuneInString s")
    show ?thesis
    proof (cases "f r")
      case False
      then show ?thesis
        using TrimRightFunc_stop [of s r n f, OF ne d] by simp
    next
      case True
      from "1.IH" [OF ne d [symmetric] True]
      obtain post where "take (length s - n) s = TrimRightFunc (take (length s - n) s) f @ post"
        by blast
      then have "s = TrimRightFunc s f @ post @ drop (length s - n) s"
        using TrimRightFunc_step [of s r n f, OF ne d True]
        by (metis append.assoc append_take_drop_id)
      then show ?thesis by blast
    qed
  qed
qed

lemma TrimFunc_idem:
  assumes "\<not> f RuneError"
  shows "TrimFunc (TrimFunc s f) f = TrimFunc s f"
proof -
  obtain post where p: "TrimLeftFunc s f = TrimRightFunc (TrimLeftFunc s f) f @ post"
    using TrimRightFunc_prefijo by blast
  have "sinInicial f (TrimRightFunc (TrimLeftFunc s f) f @ post)"
    using TrimLeftFunc_sinInicial [of f s] p by simp
  then have "sinInicial f (TrimRightFunc (TrimLeftFunc s f) f)"
    using assms by (rule sinInicial_prefijo)
  then have "TrimLeftFunc (TrimRightFunc (TrimLeftFunc s f) f) f = TrimRightFunc (TrimLeftFunc s f) f"
    by (rule TrimLeftFunc_fijo)
  then show ?thesis
    by (simp add: TrimFunc_def TrimRightFunc_idem)
qed

lemma TrimSpace_idem: "TrimSpace (TrimSpace s) = TrimSpace s"
  by (simp add: TrimSpace_def TrimFunc_idem IsSpace_RuneError)

lemma TrimSpace_partes:
  "\<exists>pre post. s = pre @ TrimSpace s @ post \<and> list_all ajeno pre \<and> list_all ajeno post"
proof -
  obtain pre where pre: "s = pre @ TrimLeftFunc s IsSpace" "list_all ajeno pre"
    using TrimLeftFunc_pre by blast
  obtain post where post:
    "TrimLeftFunc s IsSpace = TrimRightFunc (TrimLeftFunc s IsSpace) IsSpace @ post"
    "list_all ajeno post"
    using TrimRightFunc_post by blast
  have "s = pre @ TrimSpace s @ post"
    using pre(1) post(1) by (simp add: TrimSpace_def TrimFunc_def)
  then show ?thesis
    using pre(2) post(2) by blast
qed

lemma validarCorreo_TrimSpace: "validarCorreo (TrimSpace s) = validarCorreo s"
  by (simp add: validarCorreo_def TrimSpace_idem)

lemma Split_ne: "Split s c \<noteq> []"
  by (induction s) simp_all

lemma length_Split: "length (Split s c) = Suc (count_list s c)"
proof (induction s)
  case Nil
  show ?case by simp
next
  case (Cons x xs)
  then show ?case
    using Split_ne [of xs c] by (cases "Split xs c") auto
qed

lemma Split_uno: "length (Split s c) = 1 \<Longrightarrow> Split s c = [s]"
proof (induction s)
  case Nil
  show ?case by simp
next
  case (Cons x xs)
  then show ?case
    using Split_ne [of xs c] by (cases "Split xs c") (auto split: if_splits)
qed

lemma Split_dos:
  "length (Split s c) = 2 \<Longrightarrow> Split s c ! 1 = tl (dropWhile (\<lambda>x. x \<noteq> c) s)"
proof (induction s)
  case Nil
  then show ?case by simp
next
  case (Cons x xs)
  show ?case
  proof (cases "x = c")
    case True
    then have "length (Split xs c) = 1"
      using Cons.prems by simp
    then have "Split xs c = [xs]"
      by (rule Split_uno)
    then show ?thesis
      using True by simp
  next
    case False
    obtain h t where ht: "Split xs c = h # t"
      using Split_ne [of xs c] by (cases "Split xs c") auto
    then have "length (Split xs c) = 2"
      using Cons.prems False by simp
    from Cons.IH [OF this] show ?thesis
      using False ht by (cases t) simp_all
  qed
qed

lemma Contains_uno: "Contains s [c] \<longleftrightarrow> c \<in> set s"
  by (induction s) (auto simp: HasPrefix_def)

lemma LastIndex_set: "0 \<le> LastIndex s c \<longleftrightarrow> c \<in> set s"
  by (induction s) (auto simp: Let_def)

lemma LastIndex_tras:
  "c \<in> set d \<Longrightarrow> drop (nat (LastIndex d c + 1)) d = rev (takeWhile (\<lambda>x. x \<noteq> c) (rev d))"
proof (induction d)
  case Nil
  then show ?case by simp
next
  case (Cons x xs)
  show ?case
  proof (cases "c \<in> set xs")
    case True
    then have i: "0 \<le> LastIndex xs c"
      by (simp add: LastIndex_set)
    then have "nat (LastIndex xs c + 1 + 1) = Suc (nat (LastIndex xs c + 1))"
      by simp
    then show ?thesis
      using Cons.IH [OF True] True i by (simp add: Let_def takeWhile_append1 [of c])
  next
    case False
    then have i: "\<not> 0 \<le> LastIndex xs c"
      by (simp add: LastIndex_set)
    have x: "x = c"
      using Cons.prems False by simp
    have "takeWhile (\<lambda>x. x \<noteq> c) (rev xs @ [x]) = rev xs @ takeWhile (\<lambda>x. x \<noteq> c) [x]"
      using False by (intro takeWhile_append2) auto
    then show ?thesis
      using i x by (simp add: Let_def)
  qed
qed

lemma validarCorreo_recortado:
  assumes "validarCorreo s"
  shows "count_list (TrimSpace s) CHR ''@'' = 1 \<and>
         CHR ''.'' \<in> set (dominio_de (TrimSpace s)) \<and>
         2 \<le> length (tras_ultimo_punto (dominio_de (TrimSpace s)))"
proof -
  let ?t = "TrimSpace s"
  have two: "length (Split ?t CHR ''@'') = 2"
    using assms by (simp add: validarCorreo_def Let_def split: if_splits)
  have d: "Split ?t CHR ''@'' ! Suc 0 = dominio_de ?t"
    using Split_dos [OF two] by (simp add: dominio_de_def)
  have c: "Contains (dominio_de ?t) ''.''"
    using assms two by (simp add: validarCorreo_def Let_def d split: if_splits)
  then have p: "CHR ''.'' \<in> set (dominio_de ?t)"
    by (simp add: Contains_uno)
  have "2 \<le> length (drop (nat (LastIndex (dominio_de ?t) CHR ''.'' + 1)) (dominio_de ?t))"
    using assms two
    by (simp add: validarCorreo_def Let_def d not_less del: length_drop split: if_splits)
  then have "2 \<le> length (tras_ultimo_punto (dominio_de ?t))"
    using p by (simp only: LastIndex_tras tras_ultimo_punto_def)
  then show ?thesis
    using two p by (simp add: length_Split)
qed

lemma ajeno_count: "list_all ajeno w \<Longrightarrow> count_list w CHR ''@'' = 0"
  by (induction w) (simp_all add: ajeno_def)

lemma dominio_de_partes:
  assumes "list_all ajeno pre" and "CHR ''@'' \<in> set t"
  shows "dominio_de (pre @ t @ post) = dominio_de t @ post"
proof -
  have "dropWhile (\<lambda>c. c \<noteq> CHR ''@'') (pre @ t @ post) = dropWhile (\<lambda>c. c \<noteq> CHR ''@'') (t @ post)"
    using assms(1) by (intro dropWhile_append2) (auto simp: list_all_iff ajeno_def)
  also have "\<dots> = dropWhile (\<lambda>c. c \<noteq> CHR ''@'') t @ post"
    using assms(2) by (intro dropWhile_append1 [of "CHR ''@''"]) auto
  finally have e: "dropWhile (\<lambda>c. c \<noteq> CHR ''@'') (pre @ t @ post) =
      dropWhile (\<lambda>c. c \<noteq> CHR ''@'') t @ post" .
  have "dropWhile (\<lambda>c. c \<noteq> CHR ''@'') t \<noteq> []"
    using assms(2) by (simp add: dropWhile_eq_Nil_conv)
  then show ?thesis
    by (simp add: dominio_de_def e)
qed

lemma tras_ultimo_punto_post:
  assumes "list_all ajeno post"
  shows "tras_ultimo_punto (d @ post) = tras_ultimo_punto d @ post"
proof -
  have "takeWhile (\<lambda>c. c \<noteq> CHR ''.'') (rev post @ rev d) =
      rev post @ takeWhile (\<lambda>c. c \<noteq> CHR ''.'') (rev d)"
    using assms by (intro takeWhile_append2) (auto simp: list_all_iff ajeno_def)
  then show ?thesis
    by (simp add: tras_ultimo_punto_def)
qed

text \<open>
  Claim C5. A string that \<^verbatim>\<open>validarCorreo\<close> accepts contains exactly one \<^verbatim>\<open>@\<close>, its
  domain part contains a dot, and what follows the last dot of the domain part has at
  least two characters; the same holds of the string once trimmed, which is the one the
  validator examines.
\<close>

theorem validarCorreo_arroba_extension:
  assumes "validarCorreo s"
  shows "count_list s CHR ''@'' = 1 \<and>
         CHR ''.'' \<in> set (dominio_de s) \<and>
         2 \<le> length (tras_ultimo_punto (dominio_de s)) \<and>
         count_list (TrimSpace s) CHR ''@'' = 1 \<and>
         2 \<le> length (tras_ultimo_punto (dominio_de (TrimSpace s)))"
proof -
  obtain pre post where s: "s = pre @ TrimSpace s @ post"
    and pre: "list_all ajeno pre" and post: "list_all ajeno post"
    using TrimSpace_partes by blast
  note r = validarCorreo_recortado [OF assms]
  have a: "CHR ''@'' \<in> set (TrimSpace s)"
    using r by (metis count_list_0_iff zero_neq_one)
  have "count_list s CHR ''@'' = count_list (pre @ TrimSpace s @ post) CHR ''@''"
    using s by simp
  also have "\<dots> = 1"
    using r pre post by (simp add: ajeno_count)
  finally have c: "count_list s CHR ''@'' = 1" .
  have "dominio_de s = dominio_de (pre @ TrimSpace s @ post)"
    using s by simp
  also have "\<dots> = dominio_de (TrimSpace s) @ post"
    using pre a by (rule dominio_de_partes)
  finally have d: "dominio_de s = dominio_de (TrimSpace s) @ post" .
  show ?thesis
    using c r by (simp add: d tras_ultimo_punto_post [OF post])
qed

lemma espacioASCII_IsSpace: "espacioASCII c \<Longrightarrow> of_char c < (128::nat) \<and> IsSpace (of_char c)"
  by (auto simp: espacioASCII_def IsSpace_def MaxLatin1_def)

lemma DecodeRuneInString_ascii:
  "of_char c < (128::nat) \<Longrightarrow> DecodeRuneInString (c # cs) = (of_char c, 1)"
  by (simp add: DecodeRuneInString_def bytes_def DecodeRune_ascii)

lemma DecodeLastRuneInString_ascii:
  "of_char c < (128::nat) \<Longrightarrow> DecodeLastRuneInString (cs @ [c]) = (of_char c, 1)"
  by (simp add: DecodeLastRuneInString_def DecodeLastRune_def bytes_def RuneSelf_def nth_append)

lemma TrimLeftFunc_espacios:
  "list_all espacioASCII w \<Longrightarrow> TrimLeftFunc (w @ x) IsSpace = TrimLeftFunc x IsSpace"
proof (induction w)
  case Nil
  show ?case by simp
next
  case (Cons c w)
  then show ?case
    using espacioASCII_IsSpace [of c] by (simp add: DecodeRuneInString_ascii)
qed

lemma TrimRightFunc_espacios:
  "list_all espacioASCII w \<Longrightarrow> TrimRightFunc (x @ w) IsSpace = TrimRightFunc x IsSpace"
proof (induction w rule: rev_induct)
  case Nil
  show ?case by simp
next
  case (snoc c w)
  have c: "of_char c < (128::nat)" "IsSpace (of_char c)"
    using snoc.prems espacioASCII_IsSpace [of c] by simp_all
  have "DecodeLastRuneInString ((x @ w) @ [c]) = (of_char c, 1)"
    using c(1) by (rule DecodeLastRuneInString_ascii)
  from TrimRightFunc_step [of "(x @ w) @ [c]" "of_char c" 1 IsSpace, OF _ this c(2)]
  have "TrimRightFunc (x @ w @ [c]) IsSpace = TrimRightFunc (x @ w) IsSpace"
    by simp
  then show ?case
    using snoc by simp
qed

lemma TrimLeftFunc_append:
  assumes "TrimLeftFunc x f = t" and "t \<noteq> []" and "of_char (hd t) < (128::nat)"
    and "\<not> f RuneError"
  shows "TrimLeftFunc (x @ v) f = t @ v"
  using assms
proof (induction x f arbitrary: t rule: TrimLeftFunc.induct)
  case (1 f)
  then show ?case by simp
next
  case (2 c cs f)
  obtain r n where d: "DecodeRuneInString (c # cs) = (r, n)"
    by (cases "DecodeRuneInString (c # cs)")
  have d': "DecodeRune (bytes (c # cs)) = (r, n)"
    using d by (simp add: DecodeRuneInString_def)
  have ne: "bytes (c # cs) \<noteq> []"
    by (simp add: bytes_def)
  from DecodeRune_size [OF d' ne] have n: "1 \<le> n" "n \<le> Suc (length cs)"
    by (simp_all add: length_bytes)
  show ?case
  proof (cases "f r")
    case True
    then have "r \<noteq> RuneError"
      using "2.prems"(4) by blast
    from DecodeRune_append [OF d' this, of "bytes v"]
    have dv: "DecodeRuneInString (c # cs @ v) = (r, n)"
      by (simp add: DecodeRuneInString_def bytes_def)
    have t: "TrimLeftFunc (drop (n - 1) cs) f = t"
      using "2.prems"(1) d True by simp
    from "2.IH" [OF d [symmetric] True t "2.prems"(2,3,4)]
    have "TrimLeftFunc (drop (n - 1) cs @ v) f = t @ v" .
    moreover have "drop (n - 1) (cs @ v) = drop (n - 1) cs @ v"
      using n by simp
    ultimately show ?thesis
      using dv True by simp
  next
    case False
    then have t: "t = c # cs"
      using "2.prems"(1) d by simp
    then have "of_char c < (128::nat)"
      using "2.prems"(3) by simp
    then have "DecodeRuneInString (c # cs) = (of_char c, 1)"
      "DecodeRuneInString (c # cs @ v) = (of_char c, 1)"
      by (simp_all add: DecodeRuneInString_ascii)
    then show ?thesis
      using False d t by simp
  qed
qed

lemma caracterValido_ascii: "caracterValido r \<Longrightarrow> r < 128"
  by (auto simp: caracterValido_def lit_def)

lemma caracteresValidos_bytes:
  "caracteresValidos s \<longleftrightarrow> list_all caracterValido (bytes s)"
  unfolding caracteresValidos_def range_string_def
  by (rule runes_ascii_all) (rule caracterValido_ascii)

lemma validarCorreo_validos:
  assumes "validarCorreo s"
  shows "TrimSpace s \<noteq> [] \<and> caracteresValidos (TrimSpace s)"
  using assms by (simp add: validarCorreo_def Let_def split: if_splits)

lemma TrimSpace_rodeado:
  assumes "validarCorreo e" and "list_all espacioASCII w1" and "list_all espacioASCII w2"
  shows "TrimSpace (w1 @ e @ w2) = TrimSpace e"
proof -
  let ?l = "TrimLeftFunc e IsSpace"
  obtain post where p: "?l = TrimSpace e @ post"
    using TrimRightFunc_prefijo [of ?l IsSpace] by (auto simp: TrimSpace_def TrimFunc_def)
  from validarCorreo_validos [OF assms(1)]
  have ne: "TrimSpace e \<noteq> []" and v: "list_all caracterValido (bytes (TrimSpace e))"
    by (simp_all add: caracteresValidos_bytes)
  then have "caracterValido (of_char (hd (TrimSpace e)))"
    by (cases "TrimSpace e") (simp_all add: bytes_def)
  then have h: "of_char (hd ?l) < (128::nat)"
    using p ne caracterValido_ascii by simp
  have lne: "?l \<noteq> []"
    using p ne by simp
  have "TrimLeftFunc (w1 @ e @ w2) IsSpace = TrimLeftFunc (e @ w2) IsSpace"
    using assms(2) by (rule TrimLeftFunc_espacios)
  also have "\<dots> = ?l @ w2"
    using TrimLeftFunc_append [OF refl lne h IsSpace_RuneError] .
  finally have "TrimSpace (w1 @ e @ w2) = TrimRightFunc (?l @ w2) IsSpace"
    by (simp add: TrimSpace_def TrimFunc_def)
  also have "\<dots> = TrimRightFunc ?l IsSpace"
    using assms(3) by (rule TrimRightFunc_espacios)
  finally show ?thesis
    by (simp add: TrimSpace_def TrimFunc_def)
qed

lemma validarCorreo_rodeado:
  assumes "validarCorreo e" and "list_all espacioASCII w1" and "list_all espacioASCII w2"
  shows "validarCorreo (w1 @ e @ w2)"
proof -
  have "validarCorreo (w1 @ e @ w2) = validarCorreo (TrimSpace (w1 @ e @ w2))"
    by (simp add: validarCorreo_TrimSpace)
  also have "\<dots> = validarCorreo (TrimSpace e)"
    by (simp add: TrimSpace_rodeado [OF assms])
  also have "\<dots> = validarCorreo e"
    by (simp add: validarCorreo_TrimSpace)
  finally show ?thesis
    using assms(1) by simp
qed

text \<open>
  Claim C10. \<^verbatim>\<open>validarCorreo\<close> accepts a string exactly when it accepts the string
  trimmed by \<^verbatim>\<open>strings.TrimSpace\<close>; so an accepted address stays accepted with ASCII
  white space put before and after it. And a registration answered with status 201
  has stored the email of the request as it came, untrimmed.
\<close>

theorem validarCorreo_recorta:
  "(validarCorreo s \<longleftrightarrow> validarCorreo (TrimSpace s)) \<and>
   (validarCorreo e \<and> list_all espacioASCII w1 \<and> list_all espacioASCII w2 \<longrightarrow>
      validarCorreo (w1 @ e @ w2)) \<and>
   (snd (registroHandler T usuarios (Some req)) = (StatusCreated, Usuario_registrado_exitosamente) \<longrightarrow>
      fst (registroHandler T usuarios (Some req)) = usuarios @ [nuevoUsuario req] \<and>
      Usuario.Correo (nuevoUsuario req) = RegistroRequest.Correo req)"
proof -
  obtain us' r where eq: "registroHandler T usuarios (Some req) = (us', r)"
    by (cases "registroHandler T usuarios (Some req)")
  from registroHandler_cases [OF eq]
  have "r = (StatusCreated, Usuario_registrado_exitosamente) \<longrightarrow> us' = usuarios @ [nuevoUsuario req]"
    by auto
  then show ?thesis
    using validarCorreo_rodeado [of e w1 w2]
    by (simp add: validarCorreo_TrimSpace eq nuevoUsuario_def)
qed

lemma validarCorreo_ejemplo: "validarCorreo ''a@b.com''"
  by code_simp

lemma validarCorreo_ejemplo_espacios: "validarCorreo correo_espacios"
  by code_simp

lemma TrimSpace_ejemplo_unicode: "TrimSpace correo_espacios_unicode = ''a@b.com''"
  by code_simp

lemma bienFormada_espacios: "bienFormada tablas_extracto peticion_espacios"
  by code_simp

text \<open>The theorem of claim C5 at the address between two spaces.\<close>

theorem validarCorreo_arroba_extension_witness:
  "validarCorreo correo_espacios \<and> count_list correo_espacios CHR ''@'' = 1 \<and>
   dominio_de correo_espacios = ''b.com '' \<and> tras_ultimo_punto ''b.com '' = ''com '' \<and>
   2 \<le> length (tras_ultimo_punto (dominio_de correo_espacios))"
  using validarCorreo_arroba_extension [OF validarCorreo_ejemplo_espacios] validarCorreo_ejemplo_espacios
  by (simp add: correo_espacios_def dominio_de_def tras_ultimo_punto_def)

text \<open>
  The theorem of claim C10 at the address of the scenario and at the two addresses
  with white space, the first of them registered in the empty registry.
\<close>

theorem validarCorreo_recorta_witness:
  "validarCorreo ''a@b.com'' \<and> validarCorreo ('' '' @ ''a@b.com'' @ '' '') \<and>
   TrimSpace correo_espacios_unicode = ''a@b.com'' \<and> validarCorreo correo_espacios_unicode \<and>
   registroHandler tablas_extracto [] (Some peticion_espacios) =
     ([\<lparr>Usuario.Correo = '' a@b.com '', Usuario.Telefono = ''5551234567'',
        Usuario.Password = ''Pass123@''\<rparr>],
      (StatusCreated, Usuario_registrado_exitosamente))"
proof -
  note t = validarCorreo_recorta [of correo_espacios_unicode "''a@b.com''" "'' ''" "'' ''" tablas_extracto "[]"
      peticion_espacios]
  have w: "list_all espacioASCII '' ''"
    by (simp add: espacioASCII_def)
  have a: "validarCorreo ('' '' @ ''a@b.com'' @ '' '')"
    using t validarCorreo_ejemplo w by blast
  have u: "validarCorreo correo_espacios_unicode"
    using t validarCorreo_ejemplo by (simp only: TrimSpace_ejemplo_unicode)
  have s: "snd (registroHandler tablas_extracto [] (Some peticion_espacios)) =
      (StatusCreated, Usuario_registrado_exitosamente)"
    by (simp add: registroHandler_bienFormada bienFormada_espacios)
  then have "fst (registroHandler tablas_extracto [] (Some peticion_espacios)) =
      [] @ [nuevoUsuario peticion_espacios]"
    using t by blast
  then have "registroHandler tablas_extracto [] (Some peticion_espacios) =
      ([nuevoUsuario peticion_espacios], (StatusCreated, Usuario_registrado_exitosamente))"
    using s by (simp add: prod_eq_iff)
  then show ?thesis
    using a u validarCorreo_ejemplo TrimSpace_ejemplo_unicode
    by (simp add: nuevoUsuario_def peticion_espacios_def correo_espacios_def)
qed

end
